theory Spec2Isabelle
  imports Main
begin

section \<open>Operations, results and the call log\<close>

text \<open>
  A wrapped method either returns a plain value, throws synchronously, or returns a
  promise.  A promise is described by the way it eventually settles; \<open>Unsettled\<close> is a
  promise that never settles.  Errors are the errors the library itself creates
  (\<^verbatim>\<open>new Error('Circuit breaker is open')\<close>, the timeout and the rate-limit error) or
  any other thrown value, \<open>OpError\<close>.
\<close>

datatype 'x error =
    OpError 'x
  | CircuitOpen
  | TimedOut string int
  | RateLimitExceeded string "int option"

datatype ('e, 'v) settlement = Resolved 'v | Rejected 'e | Unsettled

datatype ('e, 'v) result = Value 'v | Thrown 'e | Promise "('e, 'v) settlement"

text \<open>
  Times are milliseconds as \<^verbatim>\<open>Date.now()\<close> gives them.  A wrapped method is a function of
  the decorator's options, the original method, the arguments and the receiver's class
  name (\<^verbatim>\<open>this.constructor.name\<close>) where the code reads it; every reading of the clock is an
  argument of its own, and the state a decorator keeps in its closure is passed in and
  returned.  Where the code continues in a \<^verbatim>\<open>then\<close> or \<^verbatim>\<open>catch\<close> callback, a call is followed
  to the point where the promise of the original method has settled, as it is for a
  caller who awaits each call before the next.
\<close>

text \<open>
  The call log plays the part of a jest mock's \<^verbatim>\<open>mock.calls\<close> and \<^verbatim>\<open>mock.results\<close>: one
  entry per invocation of the original method, oldest first.  The original method may
  depend on everything it was asked before, so the log is also its state.
\<close>

type_synonym ('a, 'e, 'v) calls = "('a \<times> ('e, 'v) result) list"

type_synonym ('a, 'e, 'v) operation = "('a, 'e, 'v) calls \<Rightarrow> 'a \<Rightarrow> ('e, 'v) result"

definition invoke ::
  "('a, 'e, 'v) operation \<Rightarrow> 'a \<Rightarrow> ('a, 'e, 'v) calls \<Rightarrow> ('e, 'v) result \<times> ('a, 'e, 'v) calls" where
  "invoke originalMethod args log =
     (let r = originalMethod log args in (r, log @ [(args, r)]))"

text \<open>What \<^verbatim>\<open>await result\<close> (or a \<^verbatim>\<open>try\<close> around the call plus \<^verbatim>\<open>.then/.catch\<close>) sees.\<close>

fun outcome :: "('e, 'v) result \<Rightarrow> ('e, 'v) settlement" where
  "outcome (Value v) = Resolved v"
| "outcome (Thrown e) = Rejected e"
| "outcome (Promise s) = s"

definition failed :: "('e, 'v) result \<Rightarrow> bool" where
  "failed r = (case outcome r of Rejected e \<Rightarrow> True | _ \<Rightarrow> False)"

fun is_pending :: "('e, 'v) result \<Rightarrow> bool" where
  "is_pending (Promise s) = True"
| "is_pending r = False"

fun is_immediate :: "('e, 'v) result \<Rightarrow> bool" where
  "is_immediate (Value v) = True"
| "is_immediate r = False"

fun is_thrown :: "('e, 'v) result \<Rightarrow> bool" where
  "is_thrown (Thrown e) = True"
| "is_thrown r = False"

text \<open>
  The timers are Node's: \<^verbatim>\<open>setTimeout(callback, delay)\<close> runs the callback \<open>delay\<close> milliseconds
  later, but a delay below 1 or above 2147483647 is replaced by 1.
\<close>

definition timer_delay :: "int \<Rightarrow> int" where
  "timer_delay delay = (if delay < 1 \<or> 2147483647 < delay then 1 else delay)"

section \<open>RateLimited (validation.ts)\<close>

record rl_options =
  limit :: int
  window :: int

type_synonym rl_state = "string \<Rightarrow> int list option"

text \<open>\<^verbatim>\<open>Math.min(...requestTimestamps)\<close>; \<open>None\<close> stands for the \<^verbatim>\<open>Infinity\<close> of the empty list.\<close>

definition oldestRequest :: "int list \<Rightarrow> int option" where
  "oldestRequest ts = (if ts = [] then None else Some (min_list ts))"

text \<open>\<^verbatim>\<open>oldestRequest + window - now\<close>.\<close>

definition resetTime :: "rl_options \<Rightarrow> int list \<Rightarrow> int \<Rightarrow> int option" where
  "resetTime opts ts now = map_option (\<lambda>oldest. oldest + window opts - now) (oldestRequest ts)"

text \<open>\<^verbatim>\<open>Math.ceil(resetTime / 1000)\<close>.\<close>

definition ceil_seconds :: "int \<Rightarrow> int" where
  "ceil_seconds ms = - ((- ms) div 1000)"

text \<open>\<^verbatim>\<open>rateLimitState.get(key) || []\<close>.\<close>

definition stored :: "rl_state \<Rightarrow> string \<Rightarrow> int list" where
  "stored rateLimitState key = (case rateLimitState key of None \<Rightarrow> [] | Some ts \<Rightarrow> ts)"

text \<open>The timestamps of the key that are still inside the window that ends at \<open>now\<close>.\<close>

definition requestTimestamps :: "rl_options \<Rightarrow> rl_state \<Rightarrow> string \<Rightarrow> int \<Rightarrow> int list" where
  "requestTimestamps opts rateLimitState key now =
     filter (\<lambda>timestamp. timestamp > now - window opts) (stored rateLimitState key)"

definition rl_key :: "string \<Rightarrow> string \<Rightarrow> string" where
  "rl_key instanceId methodName = instanceId @ '':'' @ methodName"

text \<open>
  One call of the wrapped method: \<open>cls\<close> is \<^verbatim>\<open>this.constructor.name\<close>, \<open>now\<close> is
  \<^verbatim>\<open>Date.now()\<close>.  The result comes with the new \<^verbatim>\<open>rateLimitState\<close> and the new call log.
\<close>

definition RateLimited ::
  "rl_options \<Rightarrow> string \<Rightarrow> ('a, 'x error, 'v) operation \<Rightarrow> string \<Rightarrow> 'a \<Rightarrow> int \<Rightarrow>
   rl_state \<Rightarrow> ('a, 'x error, 'v) calls \<Rightarrow>
   ('x error, 'v) result \<times> rl_state \<times> ('a, 'x error, 'v) calls" where
  "RateLimited opts methodName originalMethod cls args now rateLimitState log =
     (let key = rl_key cls methodName;
          ts = requestTimestamps opts rateLimitState key now
      in if int (length ts) \<ge> limit opts
         then (Thrown (RateLimitExceeded methodName
                 (map_option ceil_seconds (resetTime opts ts now))), rateLimitState, log)
         else (let (r, log') = invoke originalMethod args log
               in (r, rateLimitState(key \<mapsto> ts @ [now]), log')))"

text \<open>Calls one after the other, each with its arguments and its clock reading.\<close>

fun rl_run ::
  "rl_options \<Rightarrow> string \<Rightarrow> ('a, 'x error, 'v) operation \<Rightarrow> string \<Rightarrow> ('a \<times> int) list \<Rightarrow>
   rl_state \<Rightarrow> ('a, 'x error, 'v) calls \<Rightarrow>
   ('x error, 'v) result list \<times> rl_state \<times> ('a, 'x error, 'v) calls" where
  "rl_run opts methodName originalMethod cls [] st log = ([], st, log)"
| "rl_run opts methodName originalMethod cls ((args, now) # cs) st log =
     (case RateLimited opts methodName originalMethod cls args now st log of
        (r, st', log') \<Rightarrow>
          (case rl_run opts methodName originalMethod cls cs st' log' of
             (rs, st'', log'') \<Rightarrow> (r # rs, st'', log'')))"

text \<open>A limiter of two calls per second and a method that counts its invocations.\<close>

definition rl_opts2 :: rl_options where
  "rl_opts2 = \<lparr>limit = 2, window = 1000\<rparr>"

definition count_op :: "(nat, unit error, nat) operation" where
  "count_op log args = Value (length log + args)"

text \<open>A limiter of two calls per two and a half seconds, and one that admits no call.\<close>

definition rl_opts25 :: rl_options where
  "rl_opts25 = \<lparr>limit = 2, window = 2500\<rparr>"

definition rl_opts0 :: rl_options where
  "rl_opts0 = \<lparr>limit = 0, window = 1000\<rparr>"

section \<open>Retry (error.ts)\<close>

datatype strategy = Normal | Exponential

text \<open>
  \<^verbatim>\<open>RetryOptions\<close>.  \<open>backoff = None\<close> is the omitted option, which the decorator replaces
  by 1000.  \<open>onRetry\<close> says whether a callback was given; the calls it receives are
  collected, and the callback itself is taken to return normally.
\<close>

record retry_options =
  maxRetries :: int
  strategy :: strategy
  backoff :: "int option"
  onRetry :: bool

text \<open>
  The destructuring default \<^verbatim>\<open>backoff = 1000\<close>, and
  \<^verbatim>\<open>strategy === 'exponential' ? backoff * Math.pow(2, attempts - 1) : backoff\<close>, computed
  after \<open>attempts\<close> has been incremented, so \<open>attempts \<ge> 1\<close> here.
\<close>

definition base_backoff :: "retry_options \<Rightarrow> int" where
  "base_backoff opts = (case backoff opts of None \<Rightarrow> 1000 | Some b \<Rightarrow> b)"

definition retry_delay :: "retry_options \<Rightarrow> nat \<Rightarrow> int" where
  "retry_delay opts attempts =
     (if strategy opts = Exponential then base_backoff opts * 2 ^ (attempts - 1)
      else base_backoff opts)"

text \<open>
  The closure \<^verbatim>\<open>execute\<close>; \<open>attempts\<close> is the counter before the increment.  It returns
  how the promise of \<^verbatim>\<open>execute()\<close> settles, the delays handed to \<^verbatim>\<open>setTimeout\<close> in
  order, the arguments of the \<^verbatim>\<open>onRetry\<close> calls in order, and the call log.  The timer
  of a delay \<open>d\<close> runs for \<open>timer_delay d\<close>.
\<close>

function execute ::
  "retry_options \<Rightarrow> ('a, 'e, 'v) operation \<Rightarrow> 'a \<Rightarrow> nat \<Rightarrow> ('a, 'e, 'v) calls \<Rightarrow>
   ('e, 'v) settlement \<times> int list \<times> ('e \<times> nat) list \<times> ('a, 'e, 'v) calls" where
  "execute opts originalMethod args attempts log =
     (case invoke originalMethod args log of
        (result, log') \<Rightarrow>
          (case outcome result of
             Resolved v \<Rightarrow> (Resolved v, [], [], log')
           | Unsettled \<Rightarrow> (Unsettled, [], [], log')
           | Rejected err \<Rightarrow>
               if int (Suc attempts) \<ge> maxRetries opts + 1
               then (Rejected err, [], [], log')
               else (case execute opts originalMethod args (Suc attempts) log' of
                       (s, delays, retried, log'') \<Rightarrow>
                         (s, retry_delay opts (Suc attempts) # delays,
                          (if onRetry opts then [(err, Suc attempts)] else []) @ retried,
                          log''))))"
  by pat_completeness auto
termination
  by (relation "measure (\<lambda>(opts, f, args, attempts, log). nat (maxRetries opts + 1 - int attempts))")
    auto

text \<open>The wrapped method: an \<^verbatim>\<open>async\<close> closure is called, so the caller gets a promise.\<close>

definition Retry ::
  "retry_options \<Rightarrow> ('a, 'e, 'v) operation \<Rightarrow> 'a \<Rightarrow> ('a, 'e, 'v) calls \<Rightarrow>
   ('e, 'v) result \<times> int list \<times> ('e \<times> nat) list \<times> ('a, 'e, 'v) calls" where
  "Retry opts originalMethod args log =
     (case execute opts originalMethod args 0 log of
        (s, delays, retried, log') \<Rightarrow> (Promise s, delays, retried, log'))"

text \<open>A method that always rejects, with the number of the attempt as its error.\<close>

definition failing_op :: "(nat, nat, nat) operation" where
  "failing_op log args = Promise (Rejected (length log))"

text \<open>A method that rejects twice and then resolves.\<close>

definition flaky_op :: "(nat, nat, nat) operation" where
  "flaky_op log args = (if length log < 2 then Promise (Rejected (length log)) else Promise (Resolved args))"

definition retry_opts :: "int \<Rightarrow> strategy \<Rightarrow> retry_options" where
  "retry_opts n s = \<lparr>maxRetries = n, strategy = s, backoff = Some 100, onRetry = True\<rparr>"

text \<open>Three retries with a given backoff option and strategy, and two retries whose second
  exponential delay is beyond the range of the timers.\<close>

definition retry_with :: "int option \<Rightarrow> strategy \<Rightarrow> retry_options" where
  "retry_with b s = \<lparr>maxRetries = 3, strategy = s, backoff = b, onRetry = False\<rparr>"

definition retry_long :: retry_options where
  "retry_long = \<lparr>maxRetries = 2, strategy = Exponential, backoff = Some 1073741824,
                  onRetry = False\<rparr>"

section \<open>CircuitBreaker (error.ts)\<close>

datatype circuit = Closed | Open | HalfOpen

text \<open>
  \<^verbatim>\<open>CircuitBreakerOptions\<close>; \<open>onStateChange\<close> says whether the callback was given.  The
  record \<open>circuitState\<close> is the object of the same name that one application of the
  decorator creates; \<open>changes\<close> collects the states passed to \<^verbatim>\<open>onStateChange\<close>.
\<close>

record cb_options =
  failureThreshold :: int
  resetTimeout :: int
  onStateChange :: bool

record circuitState =
  failures :: int
  state :: circuit
  lastFailureTime :: int
  changes :: "circuit list"

definition circuitState0 :: circuitState where
  "circuitState0 = \<lparr>failures = 0, state = Closed, lastFailureTime = 0, changes = []\<rparr>"

definition updateState :: "cb_options \<Rightarrow> circuit \<Rightarrow> circuitState \<Rightarrow> circuitState" where
  "updateState opts newState c =
     (if state c \<noteq> newState
      then c\<lparr>state := newState,
             changes := changes c @ (if onStateChange opts then [newState] else [])\<rparr>
      else c)"

text \<open>\<open>now\<close> is the \<^verbatim>\<open>Date.now()\<close> read inside \<^verbatim>\<open>handleFailure\<close>.\<close>

definition handleFailure :: "cb_options \<Rightarrow> int \<Rightarrow> circuitState \<Rightarrow> circuitState" where
  "handleFailure opts now c =
     (let c1 = c\<lparr>failures := failures c + 1, lastFailureTime := now\<rparr>
      in if failures c1 \<ge> failureThreshold opts then updateState opts Open c1 else c1)"

text \<open>The two success branches (promise resolved, plain value returned) do the same.\<close>

definition handleSuccess :: "cb_options \<Rightarrow> circuitState \<Rightarrow> circuitState" where
  "handleSuccess opts c =
     (if state c = HalfOpen then (updateState opts Closed c)\<lparr>failures := 0\<rparr> else c)"

text \<open>
  The check at the head of the wrapped method: \<open>None\<close> when the call is refused, else the
  state with which the original method is invoked.
\<close>

definition admit :: "cb_options \<Rightarrow> int \<Rightarrow> circuitState \<Rightarrow> circuitState option" where
  "admit opts now c =
     (if state c = Open
      then (if now - lastFailureTime c \<ge> resetTimeout opts
            then Some (updateState opts HalfOpen c) else None)
      else Some c)"

text \<open>
  One call of the wrapped method, run to completion: \<open>now\<close> is the clock at the call,
  \<open>failedAt\<close> the clock when the failure is handled (in the \<^verbatim>\<open>catch\<close> block, or when the
  promise rejects).  The wrapper always hands back a promise.  A promise of the original
  method that never settles leaves the state as the check left it.
\<close>

definition CircuitBreaker ::
  "cb_options \<Rightarrow> ('a, 'x error, 'v) operation \<Rightarrow> 'a \<Rightarrow> int \<Rightarrow> int \<Rightarrow>
   circuitState \<Rightarrow> ('a, 'x error, 'v) calls \<Rightarrow>
   ('x error, 'v) result \<times> circuitState \<times> ('a, 'x error, 'v) calls" where
  "CircuitBreaker opts originalMethod args now failedAt c log =
     (case admit opts now c of
        None \<Rightarrow> (Promise (Rejected CircuitOpen), c, log)
      | Some c1 \<Rightarrow>
          (case invoke originalMethod args log of
             (result, log') \<Rightarrow>
               (case outcome result of
                  Resolved v \<Rightarrow> (Promise (Resolved v), handleSuccess opts c1, log')
                | Rejected err \<Rightarrow> (Promise (Rejected err), handleFailure opts failedAt c1, log')
                | Unsettled \<Rightarrow> (Promise Unsettled, c1, log'))))"

text \<open>Calls one after the other, each awaited before the next: arguments and the two clock readings.\<close>

fun cb_run ::
  "cb_options \<Rightarrow> ('a, 'x error, 'v) operation \<Rightarrow> ('a \<times> int \<times> int) list \<Rightarrow>
   circuitState \<Rightarrow> ('a, 'x error, 'v) calls \<Rightarrow>
   ('x error, 'v) result list \<times> circuitState \<times> ('a, 'x error, 'v) calls" where
  "cb_run opts originalMethod [] c log = ([], c, log)"
| "cb_run opts originalMethod ((args, now, failedAt) # cs) c log =
     (case CircuitBreaker opts originalMethod args now failedAt c log of
        (r, c', log') \<Rightarrow>
          (case cb_run opts originalMethod cs c' log' of
             (rs, c'', log'') \<Rightarrow> (r # rs, c'', log'')))"

text \<open>Once the breaker has left \<open>Closed\<close>, the failures have reached the threshold.\<close>

definition cb_inv :: "cb_options \<Rightarrow> circuitState \<Rightarrow> bool" where
  "cb_inv opts c = (state c = Closed \<or> failureThreshold opts \<le> failures c)"

text \<open>A breaker that opens at the second failure and cools down for 100 ms, and a method
  that rejects twice and then resolves.\<close>

definition cb_opts2 :: cb_options where
  "cb_opts2 = \<lparr>failureThreshold = 2, resetTimeout = 100, onStateChange = True\<rparr>"

definition twice_failing :: "(nat, nat error, nat) operation" where
  "twice_failing log args =
     (if length log < 2 then Promise (Rejected (OpError (length log))) else Promise (Resolved args))"

definition always_failing :: "(nat, nat error, nat) operation" where
  "always_failing log args = Promise (Rejected (OpError (length log)))"

text \<open>The breaker and the call log after two failures, the second at time 21.\<close>

definition cb_open :: circuitState where
  "cb_open = \<lparr>failures = 2, state = Open, lastFailureTime = 21, changes = [Open]\<rparr>"

definition cb_log2 :: "(nat, nat error, nat) calls" where
  "cb_log2 = [(1, Promise (Rejected (OpError 0))), (2, Promise (Rejected (OpError 1)))]"

section \<open>Cached and Memoize (cache.ts)\<close>

text \<open>
  \<^verbatim>\<open>interface CacheEntry { value: unknown; expiry: number | undefined }\<close>, and the
  module-level \<^verbatim>\<open>cache\<close> that all cached methods share.
\<close>

record 'v CacheEntry =
  cvalue :: 'v
  expiry :: "int option"

type_synonym 'v cache = "string \<Rightarrow> 'v CacheEntry option"

text \<open>
  \<^verbatim>\<open>CacheOptions\<close>.  Only a \<^verbatim>\<open>key\<close> that is a function is ever used, so \<open>key = None\<close> stands
  for an omitted key and for a string key alike.
\<close>

record 'a cache_options =
  expiryTime :: "int option"
  key :: "('a \<Rightarrow> string) option"

text \<open>
  The cache key; \<open>stringify\<close> is \<^verbatim>\<open>JSON.stringify\<close> on the argument list and \<open>cls\<close> is
  \<^verbatim>\<open>this.constructor.name\<close>.
\<close>

definition cacheKey ::
  "'a cache_options \<Rightarrow> ('a \<Rightarrow> string) \<Rightarrow> string \<Rightarrow> string \<Rightarrow> 'a \<Rightarrow> string" where
  "cacheKey opts stringify cls methodName args =
     (case key opts of
        Some keyfn \<Rightarrow> keyfn args
      | None \<Rightarrow> cls @ '':'' @ methodName @ '':'' @ stringify args)"

text \<open>
  \<^verbatim>\<open>!cached.expiry || cached.expiry > Date.now()\<close>: an expiry that is \<^verbatim>\<open>undefined\<close> or 0 is
  falsy.
\<close>

definition fresh :: "int option \<Rightarrow> int \<Rightarrow> bool" where
  "fresh e now = (case e of None \<Rightarrow> True | Some x \<Rightarrow> x = 0 \<or> x > now)"

text \<open>\<^verbatim>\<open>expiryTime ? Date.now() + expiryTime : undefined\<close>.\<close>

definition newExpiry :: "'a cache_options \<Rightarrow> int \<Rightarrow> int option" where
  "newExpiry opts now =
     (case expiryTime opts of None \<Rightarrow> None | Some t \<Rightarrow> if t = 0 then None else Some (now + t))"

text \<open>\<^verbatim>\<open>cache.set(cacheKey, { value, expiry: ... })\<close>, with the clock read at that moment.\<close>

definition cache_set :: "'a cache_options \<Rightarrow> string \<Rightarrow> 'v \<Rightarrow> int \<Rightarrow> 'v cache \<Rightarrow> 'v cache" where
  "cache_set opts k v storedAt cache = cache(k \<mapsto> \<lparr>cvalue = v, expiry = newExpiry opts storedAt\<rparr>)"

text \<open>What a result leaves to be stored: a plain value, or the value of a resolved promise.\<close>

fun stores :: "('e, 'v) result \<Rightarrow> 'v option" where
  "stores (Value v) = Some v"
| "stores (Promise (Resolved v)) = Some v"
| "stores r = None"

text \<open>
  The part of the wrapped method after the lookup has missed: the original method is
  invoked and a plain value or the value of a resolved promise is stored.  A throw or a
  rejection stores nothing.
\<close>

definition Cached_miss ::
  "'a cache_options \<Rightarrow> string \<Rightarrow> ('a, 'e, 'v) operation \<Rightarrow> 'a \<Rightarrow> int \<Rightarrow>
   'v cache \<Rightarrow> ('a, 'e, 'v) calls \<Rightarrow> ('e, 'v) result \<times> 'v cache \<times> ('a, 'e, 'v) calls" where
  "Cached_miss opts k originalMethod args storedAt cache log =
     (case invoke originalMethod args log of
        (result, log') \<Rightarrow>
          (case result of
             Promise s \<Rightarrow>
               (case s of
                  Resolved v \<Rightarrow> (Promise (Resolved v), cache_set opts k v storedAt cache, log')
                | Rejected e \<Rightarrow> (Promise (Rejected e), cache, log')
                | Unsettled \<Rightarrow> (Promise Unsettled, cache, log'))
           | Value v \<Rightarrow> (Value v, cache_set opts k v storedAt cache, log')
           | Thrown e \<Rightarrow> (Thrown e, cache, log')))"

text \<open>
  One call of a method wrapped by \<^verbatim>\<open>Cached(options)\<close>, run to completion.  \<open>now\<close> is the
  clock at the expiry check, \<open>storedAt\<close> the clock when the result is stored (after the
  method has returned, or when its promise resolves); a call that takes no time has
  \<open>storedAt = now\<close>.  \<open>keys\<close> is the decorator's \<^verbatim>\<open>methodCacheKeys\<close>.
\<close>

definition Cached ::
  "'a cache_options \<Rightarrow> ('a \<Rightarrow> string) \<Rightarrow> string \<Rightarrow> ('a, 'e, 'v) operation \<Rightarrow>
   string \<Rightarrow> 'a \<Rightarrow> int \<Rightarrow> int \<Rightarrow> 'v cache \<Rightarrow> string set \<Rightarrow> ('a, 'e, 'v) calls \<Rightarrow>
   ('e, 'v) result \<times> 'v cache \<times> string set \<times> ('a, 'e, 'v) calls" where
  "Cached opts stringify methodName originalMethod cls args now storedAt cache keys log =
     (let k = cacheKey opts stringify cls methodName args;
          keys' = insert k keys
      in case cache k of
           Some cached \<Rightarrow>
             if fresh (expiry cached) now then (Value (cvalue cached), cache, keys', log)
             else (case Cached_miss opts k originalMethod args storedAt (cache(k := None)) log of
                     (r, cache', log') \<Rightarrow> (r, cache', keys', log'))
         | None \<Rightarrow>
             (case Cached_miss opts k originalMethod args storedAt cache log of
                (r, cache', log') \<Rightarrow> (r, cache', keys', log')))"

text \<open>The generated \<^verbatim>\<open>invalidate<Method>\<close>: removes this method's keys and forgets them.\<close>

definition invalidate :: "'v cache \<Rightarrow> string set \<Rightarrow> 'v cache \<times> string set" where
  "invalidate cache keys = ((\<lambda>k. if k \<in> keys then None else cache k), {})"

text \<open>
  One call of a method wrapped by \<^verbatim>\<open>Memoize()\<close>; \<open>memoized\<close> is the decorator's own map.
  The class of the receiver is not part of the key.
\<close>

definition Memoize ::
  "('a \<Rightarrow> string) \<Rightarrow> string \<Rightarrow> ('a, 'e, 'v) operation \<Rightarrow> string \<Rightarrow> 'a \<Rightarrow>
   (string \<Rightarrow> 'v option) \<Rightarrow> ('a, 'e, 'v) calls \<Rightarrow>
   ('e, 'v) result \<times> (string \<Rightarrow> 'v option) \<times> ('a, 'e, 'v) calls" where
  "Memoize stringify methodName originalMethod cls args memoized log =
     (let k = methodName @ '':'' @ stringify args
      in case memoized k of
           Some v \<Rightarrow> (Value v, memoized, log)
         | None \<Rightarrow>
             (case invoke originalMethod args log of
                (result, log') \<Rightarrow>
                  (case result of
                     Promise s \<Rightarrow>
                       (case s of
                          Resolved v \<Rightarrow> (Promise (Resolved v), memoized(k \<mapsto> v), log')
                        | Rejected e \<Rightarrow> (Promise (Rejected e), memoized, log')
                        | Unsettled \<Rightarrow> (Promise Unsettled, memoized, log'))
                   | Value v \<Rightarrow> (Value v, memoized(k \<mapsto> v), log')
                   | Thrown e \<Rightarrow> (Thrown e, memoized, log'))))"

text \<open>
  Sequences of awaited calls, each with the class of the receiver, the arguments and the
  two clock readings.
\<close>

fun cached_run ::
  "'a cache_options \<Rightarrow> ('a \<Rightarrow> string) \<Rightarrow> string \<Rightarrow> ('a, 'e, 'v) operation \<Rightarrow>
   (string \<times> 'a \<times> int \<times> int) list \<Rightarrow> 'v cache \<Rightarrow> string set \<Rightarrow> ('a, 'e, 'v) calls \<Rightarrow>
   ('e, 'v) result list \<times> 'v cache \<times> string set \<times> ('a, 'e, 'v) calls" where
  "cached_run opts stringify m f [] cache keys log = ([], cache, keys, log)"
| "cached_run opts stringify m f ((cls, args, now, storedAt) # cs) cache keys log =
     (case Cached opts stringify m f cls args now storedAt cache keys log of
        (r, cache', keys', log') \<Rightarrow>
          (case cached_run opts stringify m f cs cache' keys' log' of
             (rs, cache'', keys'', log'') \<Rightarrow> (r # rs, cache'', keys'', log'')))"

fun memo_run ::
  "('a \<Rightarrow> string) \<Rightarrow> string \<Rightarrow> ('a, 'e, 'v) operation \<Rightarrow>
   (string \<times> 'a \<times> int \<times> int) list \<Rightarrow> (string \<Rightarrow> 'v option) \<Rightarrow> ('a, 'e, 'v) calls \<Rightarrow>
   ('e, 'v) result list \<times> (string \<Rightarrow> 'v option) \<times> ('a, 'e, 'v) calls" where
  "memo_run stringify m f [] memoized log = ([], memoized, log)"
| "memo_run stringify m f ((cls, args, now, storedAt) # cs) memoized log =
     (case Memoize stringify m f cls args memoized log of
        (r, memoized', log') \<Rightarrow>
          (case memo_run stringify m f cs memoized' log' of
             (rs, memoized'', log'') \<Rightarrow> (r # rs, memoized'', log'')))"

text \<open>
  The entries that \<^verbatim>\<open>Cached\<close> without expiry keeps for one class and method are the
  entries of the \<^verbatim>\<open>Memoize\<close> map, key by key.
\<close>

definition same_entries :: "string \<Rightarrow> string \<Rightarrow> 'v cache \<Rightarrow> (string \<Rightarrow> 'v option) \<Rightarrow> bool" where
  "same_entries cls m cache memoized =
     (\<forall>s. cache (cls @ '':'' @ m @ '':'' @ s) =
            map_option (\<lambda>v. \<lparr>cvalue = v, expiry = None\<rparr>) (memoized (m @ '':'' @ s)))"

text \<open>\<^verbatim>\<open>Cached()\<close> with no options, \<^verbatim>\<open>Cached({ expiryTime: 100 })\<close> and
  \<^verbatim>\<open>Cached({ expiryTime: 0 })\<close>.\<close>

definition no_options :: "'a cache_options" where
  "no_options = \<lparr>expiryTime = None, key = None\<rparr>"

definition expiring100 :: "'a cache_options" where
  "expiring100 = \<lparr>expiryTime = Some 100, key = None\<rparr>"

definition expiring0 :: "'a cache_options" where
  "expiring0 = \<lparr>expiryTime = Some 0, key = None\<rparr>"

text \<open>A method without arguments that returns how often it had been invoked before,
  one that throws, and the JSON text of the empty argument list.\<close>

definition counter :: "(unit, unit error, nat) operation" where
  "counter log args = Value (length log)"

definition throwing :: "(unit, unit error, nat) operation" where
  "throwing log args = Thrown (OpError ())"

definition json_unit :: "unit \<Rightarrow> string" where
  "json_unit args = ''[]''"

section \<open>DebounceSync and DebounceAsync (time.ts)\<close>

text \<open>
  Every call of a debounced method creates one timer and returns one new promise, so the
  number of the call names both.  \<open>timers\<close> are the timers that are still pending in the
  event loop, oldest first, each with its due time and the arguments its callback closes
  over; \<open>promises\<close> tells how the promise returned by each call has settled so far;
  \<open>timeoutMap\<close> is the decorator's map of the same name.
\<close>

record ('a, 'e, 'v) debounce_state =
  timeoutMap :: "string \<Rightarrow> nat option"
  timers :: "(nat \<times> int \<times> 'a) list"
  promises :: "('e, 'v) settlement list"

definition debounce0 :: "('a, 'e, 'v) debounce_state" where
  "debounce0 = \<lparr>timeoutMap = Map.empty, timers = [], promises = []\<rparr>"

datatype variant = Sync | Async

text \<open>\<^verbatim>\<open>clearTimeout\<close>: a timer that has fired or was cleared before is not pending, and
  clearing it again does nothing.\<close>

definition clearTimeout :: "nat \<Rightarrow> (nat \<times> int \<times> 'a) list \<Rightarrow> (nat \<times> int \<times> 'a) list" where
  "clearTimeout t pending = filter (\<lambda>x. fst x \<noteq> t) pending"

definition debounce_key :: "string \<Rightarrow> string \<Rightarrow> string" where
  "debounce_key cls methodName = cls @ ''.'' @ methodName"

text \<open>
  One call of the wrapped method at time \<open>now\<close>: the timer stored for the key is cleared, a
  new timer is set with \<^verbatim>\<open>setTimeout(..., delay)\<close>, which makes it due at
  \<open>now + timer_delay delay\<close>, and stored, and a new promise is returned.  Both variants do
  the same here.
\<close>

definition Debounce ::
  "int \<Rightarrow> string \<Rightarrow> string \<Rightarrow> 'a \<Rightarrow> int \<Rightarrow> ('a, 'e, 'v) debounce_state \<Rightarrow>
   nat \<times> ('a, 'e, 'v) debounce_state" where
  "Debounce delay methodName cls args now st =
     (let k = debounce_key cls methodName;
          pending = (case timeoutMap st k of
                       Some existingTimeout \<Rightarrow> clearTimeout existingTimeout (timers st)
                     | None \<Rightarrow> timers st);
          newTimeout = length (promises st)
      in (newTimeout,
          st\<lparr>timeoutMap := (timeoutMap st)(k \<mapsto> newTimeout),
             timers := pending @ [(newTimeout, now + timer_delay delay, args)],
             promises := promises st @ [Unsettled]\<rparr>))"

text \<open>
  How the promise of a call settles once its timer has fired and the original method has
  been invoked.  \<^verbatim>\<open>DebounceAsync\<close> chains the method with \<^verbatim>\<open>then\<close>, so a throw rejects the
  promise; \<^verbatim>\<open>DebounceSync\<close> calls the method inside the timer callback before \<^verbatim>\<open>resolve\<close>, so
  a throw leaves the promise unsettled.
\<close>

definition settles :: "variant \<Rightarrow> ('e, 'v) result \<Rightarrow> ('e, 'v) settlement" where
  "settles variant r =
     (case r of
        Thrown e \<Rightarrow> (if variant = Async then Rejected e else Unsettled)
      | _ \<Rightarrow> outcome r)"

text \<open>The callback of one timer.\<close>

definition fire ::
  "variant \<Rightarrow> ('a, 'e, 'v) operation \<Rightarrow> nat \<times> int \<times> 'a \<Rightarrow>
   ('a, 'e, 'v) debounce_state \<times> ('a, 'e, 'v) calls \<Rightarrow>
   ('a, 'e, 'v) debounce_state \<times> ('a, 'e, 'v) calls" where
  "fire variant originalMethod timer sl =
     (case timer of
        (t, due, args) \<Rightarrow>
          (case sl of
             (st, log) \<Rightarrow>
               (case invoke originalMethod args log of
                  (result, log') \<Rightarrow>
                    (st\<lparr>timers := clearTimeout t (timers st),
                        promises := (promises st)[t := settles variant result]\<rparr>, log'))))"

text \<open>
  The event loop reaches time \<open>now\<close>: the pending timers that are due fire, earliest due
  time first and in the order of their creation among equals.
\<close>

definition due_timers :: "int \<Rightarrow> (nat \<times> int \<times> 'a) list \<Rightarrow> (nat \<times> int \<times> 'a) list" where
  "due_timers now pending = sort_key (\<lambda>x. fst (snd x)) (filter (\<lambda>x. fst (snd x) \<le> now) pending)"

definition tick ::
  "variant \<Rightarrow> ('a, 'e, 'v) operation \<Rightarrow> int \<Rightarrow>
   ('a, 'e, 'v) debounce_state \<times> ('a, 'e, 'v) calls \<Rightarrow>
   ('a, 'e, 'v) debounce_state \<times> ('a, 'e, 'v) calls" where
  "tick variant originalMethod now sl =
     fold (fire variant originalMethod) (due_timers now (timers (fst sl))) sl"

text \<open>What happens to a debounced method: it is called, or time passes.\<close>

datatype 'a event = Call string 'a int | Tick int

fun debounce_run ::
  "variant \<Rightarrow> int \<Rightarrow> string \<Rightarrow> ('a, 'e, 'v) operation \<Rightarrow> 'a event list \<Rightarrow>
   ('a, 'e, 'v) debounce_state \<times> ('a, 'e, 'v) calls \<Rightarrow>
   ('a, 'e, 'v) debounce_state \<times> ('a, 'e, 'v) calls" where
  "debounce_run variant delay m f [] sl = sl"
| "debounce_run variant delay m f (Call cls args now # evs) sl =
     debounce_run variant delay m f evs (snd (Debounce delay m cls args now (fst sl)), snd sl)"
| "debounce_run variant delay m f (Tick now # evs) sl =
     debounce_run variant delay m f evs (tick variant f now sl)"



text \<open>A method that echoes its argument in a resolved promise.\<close>

definition echo :: "(nat, unit error, nat) operation" where
  "echo log args = Promise (Resolved args)"




section \<open>Timeout and Fallback (error.ts)\<close>

text \<open>
  \<^verbatim>\<open>Promise.race\<close> of the method's promise against a timer set with
  \<^verbatim>\<open>setTimeout(..., ms)\<close>, which fires after \<open>timer_delay ms\<close>; the error message carries
  \<open>ms\<close> as given.  \<open>settledAfter\<close> is the time the method's promise takes to settle, if it
  settles at all; at equal times the method's promise, which was created first, is taken
  to win.  A plain return value is
  wrapped by \<^verbatim>\<open>Promise.resolve\<close> and is settled at once.  A synchronous throw of the method
  leaves the wrapper before any promise exists.
\<close>

definition Timeout ::
  "int \<Rightarrow> string \<Rightarrow> ('a, 'x error, 'v) operation \<Rightarrow> 'a \<Rightarrow> int \<Rightarrow>
   ('a, 'x error, 'v) calls \<Rightarrow> ('x error, 'v) result \<times> ('a, 'x error, 'v) calls" where
  "Timeout ms methodName originalMethod args settledAfter log =
     (case invoke originalMethod args log of
        (result, log') \<Rightarrow>
          (case result of
             Thrown e \<Rightarrow> (Thrown e, log')
           | Value v \<Rightarrow> (Promise (Resolved v), log')
           | Promise s \<Rightarrow>
               (Promise (if s = Unsettled \<or> timer_delay ms < settledAfter
                         then Rejected (TimedOut methodName ms) else s), log')))"

text \<open>
  \<^verbatim>\<open>Fallback(fallbackFn)\<close>: the substitute is called with the same arguments when the method
  throws or its promise rejects; \<^verbatim>\<open>result.catch\<close> yields a promise that follows whatever
  the substitute returns.
\<close>

definition Fallback ::
  "('a \<Rightarrow> ('e, 'v) result) \<Rightarrow> ('a, 'e, 'v) operation \<Rightarrow> 'a \<Rightarrow> ('a, 'e, 'v) calls \<Rightarrow>
   ('e, 'v) result \<times> ('a, 'e, 'v) calls" where
  "Fallback fallbackFn originalMethod args log =
     (case invoke originalMethod args log of
        (result, log') \<Rightarrow>
          (case result of
             Thrown e \<Rightarrow> (fallbackFn args, log')
           | Value v \<Rightarrow> (Value v, log')
           | Promise s \<Rightarrow>
               (case s of
                  Rejected e \<Rightarrow> (Promise (outcome (fallbackFn args)), log')
                | _ \<Rightarrow> (Promise s, log'))))"

section \<open>ThrottleSync and ThrottleAsync (time.ts)\<close>

text \<open>
  The throttled methods can return \<^verbatim>\<open>undefined\<close>, so their values are options with \<open>None\<close>
  for \<^verbatim>\<open>undefined\<close>.  \<^verbatim>\<open>lastCallMap.get(key) || 0\<close> is 0 for a missing key.
\<close>

definition lastCall :: "(string \<Rightarrow> int option) \<Rightarrow> string \<Rightarrow> int" where
  "lastCall lastCallMap k = (case lastCallMap k of None \<Rightarrow> 0 | Some t \<Rightarrow> t)"

definition ThrottleSync ::
  "int \<Rightarrow> string \<Rightarrow> ('a, 'e, 'v option) operation \<Rightarrow> string \<Rightarrow> 'a \<Rightarrow> int \<Rightarrow>
   (string \<Rightarrow> int option) \<Rightarrow> ('a, 'e, 'v option) calls \<Rightarrow>
   ('e, 'v option) result \<times> (string \<Rightarrow> int option) \<times> ('a, 'e, 'v option) calls" where
  "ThrottleSync interval methodName originalMethod cls args now lastCallMap log =
     (let k = cls @ ''.'' @ methodName
      in if now - lastCall lastCallMap k \<ge> interval
         then (case invoke originalMethod args log of
                 (result, log') \<Rightarrow> (result, lastCallMap(k \<mapsto> now), log'))
         else (Value None, lastCallMap, log))"

text \<open>
  \<^verbatim>\<open>lastResult || Promise.resolve(undefined)\<close>: the stored result is what the method
  returned, a promise (always truthy) or a plain value, whose truthiness \<open>truthy\<close> decides.
  A throw of the method is never stored.
\<close>

definition lastResultOr ::
  "('v \<Rightarrow> bool) \<Rightarrow> ('e, 'v option) result option \<Rightarrow> ('e, 'v option) result" where
  "lastResultOr truthy lastResult =
     (case lastResult of
        Some (Promise s) \<Rightarrow> Promise s
      | Some (Value (Some v)) \<Rightarrow> if truthy v then Value (Some v) else Promise (Resolved None)
      | _ \<Rightarrow> Promise (Resolved None))"

definition ThrottleAsync ::
  "int \<Rightarrow> ('v \<Rightarrow> bool) \<Rightarrow> string \<Rightarrow> ('a, 'e, 'v option) operation \<Rightarrow> string \<Rightarrow> 'a \<Rightarrow> int \<Rightarrow>
   (string \<Rightarrow> int option) \<Rightarrow> (string \<Rightarrow> ('e, 'v option) result option) \<Rightarrow>
   ('a, 'e, 'v option) calls \<Rightarrow>
   ('e, 'v option) result \<times> (string \<Rightarrow> int option) \<times>
   (string \<Rightarrow> ('e, 'v option) result option) \<times> ('a, 'e, 'v option) calls" where
  "ThrottleAsync interval truthy methodName originalMethod cls args now lastCallMap lastResultMap log =
     (let k = cls @ ''.'' @ methodName
      in if now - lastCall lastCallMap k \<ge> interval
         then (case invoke originalMethod args log of
                 (result, log') \<Rightarrow>
                   (case result of
                      Thrown e \<Rightarrow> (Thrown e, lastCallMap, lastResultMap, log')
                    | _ \<Rightarrow> (result, lastCallMap(k \<mapsto> now), lastResultMap(k \<mapsto> result), log')))
         else (lastResultOr truthy (lastResultMap k), lastCallMap, lastResultMap, log))"

section \<open>EffectBefore, EffectAfter and EffectError (lifecycle.ts)\<close>

text \<open>\<^verbatim>\<open>EffectContext\<close>, and \<^verbatim>\<open>this.constructor?.name || 'Unknown'\<close>.\<close>

record ('a, 'e, 'v) EffectContext =
  functionName :: string
  className :: string
  ctx_args :: 'a
  ctx_result :: "'v option"
  ctx_error :: "'e option"

definition classNameOf :: "string \<Rightarrow> string" where
  "classNameOf cls = (if cls = [] then ''Unknown'' else cls)"

text \<open>The hook \<open>fn\<close> gets the context and returns a plain value or a promise, or throws.\<close>

type_synonym ('a, 'e, 'v, 'h) hook = "('a, 'e, 'v) EffectContext \<Rightarrow> ('e, 'h) result"

text \<open>A promise \<open>p.then(() => r)\<close>: it follows \<open>r\<close> once \<open>p\<close> has resolved.\<close>

definition then_result :: "('e, 'h) settlement \<Rightarrow> ('e, 'v) settlement \<Rightarrow> ('e, 'v) settlement" where
  "then_result p r = (case p of Resolved x \<Rightarrow> r | Rejected e \<Rightarrow> Rejected e | Unsettled \<Rightarrow> Unsettled)"

definition EffectBefore ::
  "('a, 'e, 'v, 'h) hook \<Rightarrow> string \<Rightarrow> ('a, 'e, 'v) operation \<Rightarrow> string \<Rightarrow> 'a \<Rightarrow>
   ('a, 'e, 'v) calls \<Rightarrow> ('e, 'v) result \<times> ('a, 'e, 'v) calls" where
  "EffectBefore fn propertyKey originalMethod cls args log =
     (let effectContext = \<lparr>functionName = propertyKey, className = classNameOf cls,
                            ctx_args = args, ctx_result = None, ctx_error = None\<rparr>
      in case fn effectContext of
           Thrown e \<Rightarrow> (Thrown e, log)
         | beforeResult \<Rightarrow>
             (case invoke originalMethod args log of
                (methodResult, log') \<Rightarrow>
                  (case methodResult of
                     Thrown e \<Rightarrow> (Thrown e, log')
                   | _ \<Rightarrow>
                       (case beforeResult of
                          Promise b \<Rightarrow> (Promise (then_result b (outcome methodResult)), log')
                        | _ \<Rightarrow> (methodResult, log')))))"

text \<open>\<^verbatim>\<open>Promise.resolve(fn(effectContext)).then(() => result)\<close>, where a throw of \<open>fn\<close> inside a
  \<^verbatim>\<open>then\<close> callback rejects the promise.\<close>

definition after_hook :: "('e, 'h) result \<Rightarrow> ('e, 'v) settlement \<Rightarrow> ('e, 'v) settlement" where
  "after_hook hookResult r = then_result (outcome hookResult) r"

definition EffectAfter ::
  "('a, 'e, 'v, 'h) hook \<Rightarrow> string \<Rightarrow> ('a, 'e, 'v) operation \<Rightarrow> string \<Rightarrow> 'a \<Rightarrow>
   ('a, 'e, 'v) calls \<Rightarrow> ('e, 'v) result \<times> ('a, 'e, 'v) calls" where
  "EffectAfter fn propertyKey originalMethod cls args log =
     (case invoke originalMethod args log of
        (methodResult, log') \<Rightarrow>
          (case methodResult of
             Thrown e \<Rightarrow> (Thrown e, log')
           | Promise s \<Rightarrow>
               (case s of
                  Resolved v \<Rightarrow>
                    (Promise (after_hook
                       (fn \<lparr>functionName = propertyKey, className = classNameOf cls,
                             ctx_args = args, ctx_result = Some v, ctx_error = None\<rparr>)
                       (Resolved v)), log')
                | _ \<Rightarrow> (Promise s, log'))
           | Value v \<Rightarrow>
               (case fn \<lparr>functionName = propertyKey, className = classNameOf cls,
                         ctx_args = args, ctx_result = Some v, ctx_error = None\<rparr> of
                  Thrown e \<Rightarrow> (Thrown e, log')
                | Promise a \<Rightarrow> (Promise (then_result a (Resolved v)), log')
                | Value x \<Rightarrow> (Value v, log'))))"

definition EffectError ::
  "('a, 'e, 'v, 'h) hook \<Rightarrow> string \<Rightarrow> ('a, 'e, 'v) operation \<Rightarrow> string \<Rightarrow> 'a \<Rightarrow>
   ('a, 'e, 'v) calls \<Rightarrow> ('e, 'v) result \<times> ('a, 'e, 'v) calls" where
  "EffectError fn propertyKey originalMethod cls args log =
     (case invoke originalMethod args log of
        (methodResult, log') \<Rightarrow>
          (case methodResult of
             Value v \<Rightarrow> (Value v, log')
           | Promise s \<Rightarrow>
               (case s of
                  Rejected err \<Rightarrow>
                    (Promise (after_hook
                       (fn \<lparr>functionName = propertyKey, className = classNameOf cls,
                             ctx_args = args, ctx_result = None, ctx_error = Some err\<rparr>)
                       (Rejected err)), log')
                | _ \<Rightarrow> (Promise s, log'))
           | Thrown err \<Rightarrow>
               (case fn \<lparr>functionName = propertyKey, className = classNameOf cls,
                         ctx_args = args, ctx_result = None, ctx_error = Some err\<rparr> of
                  Thrown e \<Rightarrow> (Thrown e, log')
                | Promise a \<Rightarrow> (Promise (then_result a (Rejected err)), log')
                | Value x \<Rightarrow> (Thrown err, log'))))"

section \<open>Example methods and hooks\<close>

text \<open>An asynchronous counter, a counter for the throttled methods, and two hooks.\<close>

definition async_counter :: "(unit, unit error, nat) operation" where
  "async_counter log args = Promise (Resolved (length log))"

definition opt_counter :: "(unit, unit error, nat option) operation" where
  "opt_counter log args = Value (Some (length log))"

definition sync_hook :: "(unit, unit error, nat, unit) hook" where
  "sync_hook effectContext = Value ()"

definition async_hook :: "(unit, unit error, nat, unit) hook" where
  "async_hook effectContext = Promise (Resolved ())"

section \<open>Results and the call log\<close>

lemma failed_iff: "failed r \<longleftrightarrow> (\<exists>e. outcome r = Rejected e)"
  by (simp add: failed_def split: settlement.splits)

lemma invoke_eq: "invoke f args log = (f log args, log @ [(args, f log args)])"
  by (simp add: invoke_def Let_def)

section \<open>Properties of RateLimited\<close>

lemma RateLimited_rejected:
  assumes "limit opts \<le> int (length (requestTimestamps opts st (rl_key cls m) now))"
  shows "RateLimited opts m f cls args now st log =
           (Thrown (RateLimitExceeded m (map_option ceil_seconds
              (resetTime opts (requestTimestamps opts st (rl_key cls m) now) now))), st, log)"
  using assms by (simp add: RateLimited_def Let_def)

lemma RateLimited_admitted:
  assumes "int (length (requestTimestamps opts st (rl_key cls m) now)) < limit opts"
  shows "RateLimited opts m f cls args now st log =
           (f log args,
            st(rl_key cls m \<mapsto> requestTimestamps opts st (rl_key cls m) now @ [now]),
            log @ [(args, f log args)])"
  using assms by (simp add: RateLimited_def invoke_def Let_def)

lemma stored_upd: "stored (st(k \<mapsto> ts)) k' = (if k' = k then ts else stored st k')"
  by (simp add: stored_def)

lemma requestTimestamps_length:
  "length (requestTimestamps opts st k now) \<le> length (stored st k)"
  by (simp add: requestTimestamps_def)

lemma rl_run_length: "rl_run opts m f cls cs st log = (rs, st', log') \<Longrightarrow> length rs = length cs"
  by (induction cs arbitrary: st log rs) (auto split: prod.splits)

lemma rl_run_admits:
  assumes "int (length (stored st (rl_key cls m))) + int (length cs) \<le> limit opts"
    and "rl_run opts m f cls cs st log = (rs, st', log')"
  shows "log' = log @ zip (map fst cs) rs
       \<and> length (stored st' (rl_key cls m)) \<le> length (stored st (rl_key cls m)) + length cs"
  using assms
proof (induction cs arbitrary: st log rs)
  case Nil
  then show ?case by simp
next
  case (Cons c cs)
  obtain args now where c: "c = (args, now)" by (cases c)
  define k where "k = rl_key cls m"
  define ts where "ts = requestTimestamps opts st k now"
  define st1 where "st1 = st(k \<mapsto> ts @ [now])"
  define log1 where "log1 = log @ [(args, f log args)]"
  have len: "length ts \<le> length (stored st k)"
    unfolding ts_def by (rule requestTimestamps_length)
  with Cons.prems(1) have adm: "int (length ts) < limit opts" by (simp add: k_def)
  have step: "RateLimited opts m f cls args now st log = (f log args, st1, log1)"
    using adm RateLimited_admitted[of opts st cls m now f args log]
    by (simp add: k_def ts_def st1_def log1_def)
  obtain rs1 where run1: "rl_run opts m f cls cs st1 log1 = (rs1, st', log')"
    and rs: "rs = f log args # rs1"
    using Cons.prems(2) by (auto simp: c step split: prod.splits)
  have st1k: "stored st1 k = ts @ [now]" by (simp add: st1_def stored_upd)
  have "int (length (stored st1 (rl_key cls m))) + int (length cs) \<le> limit opts"
    using Cons.prems(1) len st1k by (simp add: k_def)
  from Cons.IH[OF this run1]
  have ih: "log' = log1 @ zip (map fst cs) rs1"
    "length (stored st' k) \<le> length (stored st1 k) + length cs" by (simp_all add: k_def)
  have "log' = log @ zip (map fst (c # cs)) rs"
    using ih(1) by (simp add: log1_def rs c)
  moreover have "length (stored st' k) \<le> length (stored st k) + length (c # cs)"
    using ih(2) st1k len by simp
  ultimately show ?case by (simp add: k_def)
qed

text \<open>With every timestamp inside the window of the last call nothing is pruned.\<close>

lemma rl_run_burst:
  assumes "int (length (stored st (rl_key cls m))) + int (length cs) \<le> limit opts"
    and "\<forall>t \<in> set (stored st (rl_key cls m)) \<union> snd ` set cs. now - window opts < t \<and> t \<le> now"
    and "rl_run opts m f cls cs st log = (rs, st', log')"
  shows "stored st' (rl_key cls m) = stored st (rl_key cls m) @ map snd cs"
  using assms
proof (induction cs arbitrary: st log rs)
  case Nil
  then show ?case by simp
next
  case (Cons c cs)
  obtain args t where c: "c = (args, t)" by (cases c)
  define k where "k = rl_key cls m"
  define ts where "ts = requestTimestamps opts st k t"
  define st1 where "st1 = st(k \<mapsto> ts @ [t])"
  define log1 where "log1 = log @ [(args, f log args)]"
  have t: "now - window opts < t" "t \<le> now" using Cons.prems(2) by (simp_all add: c)
  have "t - window opts < u" if "u \<in> set (stored st k)" for u
  proof -
    from that Cons.prems(2) have "now - window opts < u" by (simp add: k_def)
    with t(2) show ?thesis by simp
  qed
  then have ts: "ts = stored st k"
    by (simp add: ts_def requestTimestamps_def)
  with Cons.prems(1) have adm: "int (length ts) < limit opts" by (simp add: k_def)
  have step: "RateLimited opts m f cls args t st log = (f log args, st1, log1)"
    using adm RateLimited_admitted[of opts st cls m t f args log]
    by (simp add: k_def ts_def st1_def log1_def)
  obtain rs1 where run1: "rl_run opts m f cls cs st1 log1 = (rs1, st', log')"
    using Cons.prems(3) by (auto simp: c step split: prod.splits)
  have st1k: "stored st1 k = stored st k @ [t]" by (simp add: st1_def stored_upd ts)
  have 1: "int (length (stored st1 (rl_key cls m))) + int (length cs) \<le> limit opts"
    using Cons.prems(1) st1k by (simp add: k_def)
  have 2: "\<forall>t \<in> set (stored st1 (rl_key cls m)) \<union> snd ` set cs. now - window opts < t \<and> t \<le> now"
    using Cons.prems(2) st1k t by (auto simp: k_def c)
  from Cons.IH[OF 1 2 run1] show ?case
    using st1k by (simp add: k_def c)
qed

lemma min_list_bounds:
  assumes "ts \<noteq> []" and "\<forall>t \<in> set ts. lo < t \<and> t \<le> (hi::int)"
  shows "lo < min_list ts \<and> min_list ts \<le> hi"
proof -
  have "min_list ts = Min (set ts)" using assms(1) by (rule min_list_Min)
  moreover have "Min (set ts) \<in> set ts" using assms(1) by (simp add: Min_in)
  ultimately show ?thesis using assms(2) by simp
qed

text \<open>\<^verbatim>\<open>Math.ceil(ms / 1000)\<close> is the least number of whole seconds that covers \<open>ms\<close>.\<close>

lemma ceil_seconds_bounds: "1000 * (ceil_seconds ms - 1) < ms \<and> ms \<le> 1000 * ceil_seconds ms"
proof -
  define q where "q = (- ms) div 1000"
  define r where "r = (- ms) mod 1000"
  have "- ms = 1000 * q + r" by (simp add: q_def r_def)
  moreover have "0 \<le> r" "r < 1000" by (simp_all add: r_def)
  ultimately show ?thesis unfolding ceil_seconds_def q_def[symmetric] by simp
qed

text \<open>
  C7 (as amended): with \<open>limit = L\<close> and \<open>window = W\<close>, each call first prunes the key's
  timestamps that are not newer than \<open>now - W\<close>; it fails with the rate-limit error exactly
  when at least \<open>L\<close> timestamps remain, and otherwise records \<open>now\<close> and invokes the original
  method.  So for \<open>L \<ge> 1\<close>, \<open>L\<close> calls on a fresh key all reach the original method, and when
  they all lie inside the window of a further call, that call is refused; the time until
  the oldest of the recorded timestamps leaves the window is positive and at most \<open>W\<close>, and
  what the error reports is that time in whole seconds, rounded up: the least \<open>secs\<close> with
  \<open>rt \<le> 1000 * secs\<close>, so at least one second and less than \<open>W + 1000\<close> milliseconds.  With
  \<open>L \<le> 0\<close> every call is refused, and with no timestamp in the window the error reports
  no finite time.
\<close>

theorem RateLimited_sliding_window:
  assumes L: "limit opts = L" and W: "window opts = W"
  shows "requestTimestamps opts st (rl_key cls m) now
           = filter (\<lambda>t. now - W < t) (stored st (rl_key cls m))
       \<and> RateLimited opts m f cls args now st log =
           (if L \<le> int (length (requestTimestamps opts st (rl_key cls m) now))
            then (Thrown (RateLimitExceeded m (map_option ceil_seconds
                    (resetTime opts (requestTimestamps opts st (rl_key cls m) now) now))), st, log)
            else (f log args,
                  st(rl_key cls m \<mapsto> requestTimestamps opts st (rl_key cls m) now @ [now]),
                  log @ [(args, f log args)]))
       \<and> (1 \<le> L \<and> int (length cs) = L \<and> stored st0 (rl_key cls m) = []
            \<and> (\<forall>t \<in> snd ` set cs. now - W < t \<and> t \<le> now)
            \<and> rl_run opts m f cls cs st0 log0 = (rs, st1, log1)
          \<longrightarrow> length rs = length cs \<and> log1 = log0 @ zip (map fst cs) rs
              \<and> (\<exists>rt secs. rt = Min (snd ` set cs) + W - now \<and> 0 < rt \<and> rt \<le> W
                    \<and> 1000 * (secs - 1) < rt \<and> rt \<le> 1000 * secs
                    \<and> 1 \<le> secs \<and> 1000 * secs < W + 1000
                    \<and> RateLimited opts m f cls args now st1 log1 =
                        (Thrown (RateLimitExceeded m (Some secs)), st1, log1)))
       \<and> (L \<le> 0 \<longrightarrow>
            (\<exists>secs. RateLimited opts m f cls args now st log =
                       (Thrown (RateLimitExceeded m secs), st, log)
                  \<and> (requestTimestamps opts st (rl_key cls m) now = [] \<longrightarrow> secs = None)))"
proof (intro conjI impI)
  show "requestTimestamps opts st (rl_key cls m) now
           = filter (\<lambda>t. now - W < t) (stored st (rl_key cls m))"
    by (simp add: requestTimestamps_def W)
  show "RateLimited opts m f cls args now st log =
           (if L \<le> int (length (requestTimestamps opts st (rl_key cls m) now))
            then (Thrown (RateLimitExceeded m (map_option ceil_seconds
                    (resetTime opts (requestTimestamps opts st (rl_key cls m) now) now))), st, log)
            else (f log args,
                  st(rl_key cls m \<mapsto> requestTimestamps opts st (rl_key cls m) now @ [now]),
                  log @ [(args, f log args)]))"
    using RateLimited_rejected[of opts st cls m now f args log]
      RateLimited_admitted[of opts st cls m now f args log] L
    by (cases "L \<le> int (length (requestTimestamps opts st (rl_key cls m) now))") simp_all
next
  assume h: "1 \<le> L \<and> int (length cs) = L \<and> stored st0 (rl_key cls m) = []
            \<and> (\<forall>t \<in> snd ` set cs. now - W < t \<and> t \<le> now)
            \<and> rl_run opts m f cls cs st0 log0 = (rs, st1, log1)"
  then have run: "rl_run opts m f cls cs st0 log0 = (rs, st1, log1)" by simp
  from h have quota: "int (length (stored st0 (rl_key cls m))) + int (length cs) \<le> limit opts"
    by (simp add: L)
  from h have inside: "\<forall>t \<in> set (stored st0 (rl_key cls m)) \<union> snd ` set cs.
      now - window opts < t \<and> t \<le> now"
    by (simp add: W)
  show "length rs = length cs" using run by (rule rl_run_length)
  show "log1 = log0 @ zip (map fst cs) rs"
    using rl_run_admits[OF quota run] by simp
  define ts where "ts = requestTimestamps opts st1 (rl_key cls m) now"
  have st1: "stored st1 (rl_key cls m) = map snd cs"
    using rl_run_burst[OF quota inside run] h by simp
  have bounds: "\<forall>t \<in> set (map snd cs). now - W < t \<and> t \<le> now" using h by simp
  then have ts: "ts = map snd cs"
    by (simp add: ts_def requestTimestamps_def st1 W)
  have ne: "ts \<noteq> []" using h ts by auto
  have full: "limit opts \<le> int (length ts)" using h ts by (simp add: L)
  define rt where "rt = min_list ts + W - now"
  define secs where "secs = ceil_seconds rt"
  have rt: "resetTime opts ts now = Some rt"
    using ne by (simp add: resetTime_def oldestRequest_def rt_def W)
  have "min_list ts = Min (set ts)" using ne by (rule min_list_Min)
  then have oldest: "rt = Min (snd ` set cs) + W - now" by (simp add: rt_def ts)
  have "now - W < min_list ts \<and> min_list ts \<le> now"
    using min_list_bounds[OF ne, of "now - W" now] bounds ts by simp
  then have pos: "0 < rt" "rt \<le> W" by (simp_all add: rt_def)
  have ceil: "1000 * (secs - 1) < rt" "rt \<le> 1000 * secs"
    using ceil_seconds_bounds[of rt] by (simp_all add: secs_def)
  with pos have range: "1 \<le> secs" "1000 * secs < W + 1000" by simp_all
  have "RateLimited opts m f cls args now st1 log1 =
      (Thrown (RateLimitExceeded m (Some secs)), st1, log1)"
    using RateLimited_rejected[of opts st1 cls m now f args log1] full rt
    by (simp add: ts_def secs_def)
  with oldest pos ceil range
  show "\<exists>rt secs. rt = Min (snd ` set cs) + W - now \<and> 0 < rt \<and> rt \<le> W
                    \<and> 1000 * (secs - 1) < rt \<and> rt \<le> 1000 * secs
                    \<and> 1 \<le> secs \<and> 1000 * secs < W + 1000
                    \<and> RateLimited opts m f cls args now st1 log1 =
                        (Thrown (RateLimitExceeded m (Some secs)), st1, log1)"
    by blast
next
  assume "L \<le> 0"
  then have full: "limit opts \<le> int (length (requestTimestamps opts st (rl_key cls m) now))"
    by (simp add: L)
  have "requestTimestamps opts st (rl_key cls m) now = [] \<longrightarrow>
      map_option ceil_seconds
        (resetTime opts (requestTimestamps opts st (rl_key cls m) now) now) = None"
    by (simp add: resetTime_def oldestRequest_def)
  with RateLimited_rejected[OF full, of f args log]
  show "\<exists>secs. RateLimited opts m f cls args now st log =
                       (Thrown (RateLimitExceeded m secs), st, log)
                  \<and> (requestTimestamps opts st (rl_key cls m) now = [] \<longrightarrow> secs = None)"
    by blast
qed

lemmas rl_eval = rl_opts25_def rl_opts0_def count_op_def RateLimited_def Let_def rl_key_def
  requestTimestamps_def stored_def invoke_def resetTime_def oldestRequest_def ceil_seconds_def

lemma rl_witness_run:
  "rl_run rl_opts25 ''m'' count_op ''C'' [(0, 2200), (5, 1100)] Map.empty [] =
     ([Value 0, Value 6], [''C:m'' \<mapsto> [2200, 1100]], [(0, Value 0), (5, Value 6)])"
  by (simp add: rl_eval)

theorem RateLimited_sliding_window_witness:
  "rl_run rl_opts25 ''m'' count_op ''C'' [(0, 2200), (5, 1100)] Map.empty [] =
     ([Value 0, Value 6], [''C:m'' \<mapsto> [2200, 1100]], [(0, Value 0), (5, Value 6)])
   \<and> RateLimited rl_opts25 ''m'' count_op ''C'' 7 2300
         [''C:m'' \<mapsto> [2200, 1100]] [(0, Value 0), (5, Value 6)] =
       (Thrown (RateLimitExceeded ''m'' (Some 2)),
         [''C:m'' \<mapsto> [2200, 1100]], [(0, Value 0), (5, Value 6)])
   \<and> resetTime rl_opts25 [2200, 1100] 2300 = Some 1300 \<and> (1300::int) \<le> 2500
   \<and> RateLimited rl_opts0 ''m'' count_op ''C'' 7 2300 Map.empty [] =
       (Thrown (RateLimitExceeded ''m'' None), Map.empty, [])"
proof -
  have L0: "limit rl_opts0 = 0" and W0: "window rl_opts0 = 1000"
    by (simp_all add: rl_opts0_def)
  from RateLimited_sliding_window [OF L0 W0, of Map.empty "''C''" "''m''" 2300 count_op 7 "[]"]
  have "(0::int) \<le> 0 \<longrightarrow>
      (\<exists>secs. RateLimited rl_opts0 ''m'' count_op ''C'' 7 2300 Map.empty [] =
                       (Thrown (RateLimitExceeded ''m'' secs), Map.empty, [])
                  \<and> (requestTimestamps rl_opts0 Map.empty (rl_key ''C'' ''m'') 2300 = []
                         \<longrightarrow> secs = None))"
    by blast
  then have "\<exists>secs. RateLimited rl_opts0 ''m'' count_op ''C'' 7 2300 Map.empty [] =
                       (Thrown (RateLimitExceeded ''m'' secs), Map.empty, [])
                  \<and> (requestTimestamps rl_opts0 Map.empty (rl_key ''C'' ''m'') 2300 = []
                         \<longrightarrow> secs = None)"
    by (rule mp) simp
  then obtain secs0 where
    a: "RateLimited rl_opts0 ''m'' count_op ''C'' 7 2300 Map.empty [] =
          (Thrown (RateLimitExceeded ''m'' secs0), Map.empty, [])"
    and b: "requestTimestamps rl_opts0 Map.empty (rl_key ''C'' ''m'') 2300 = []
              \<longrightarrow> secs0 = None"
    by blast
  have "requestTimestamps rl_opts0 Map.empty (rl_key ''C'' ''m'') 2300 = []"
    by (simp add: requestTimestamps_def stored_def)
  with b have "secs0 = None" by blast
  with a have none: "RateLimited rl_opts0 ''m'' count_op ''C'' 7 2300 Map.empty [] =
       (Thrown (RateLimitExceeded ''m'' None), Map.empty, [])"
    by simp
  have "\<exists>rt secs. rt = Min (snd ` set [(0::nat, 2200), (5, 1100)]) + 2500 - 2300
          \<and> 0 < rt \<and> rt \<le> 2500
          \<and> 1000 * (secs - 1) < rt \<and> rt \<le> 1000 * secs
          \<and> 1 \<le> secs \<and> 1000 * secs < 2500 + 1000
          \<and> RateLimited rl_opts25 ''m'' count_op ''C'' 7 2300
                [''C:m'' \<mapsto> [2200, 1100]] [(0, Value 0), (5, Value 6)] =
              (Thrown (RateLimitExceeded ''m'' (Some secs)),
                [''C:m'' \<mapsto> [2200, 1100]], [(0, Value 0), (5, Value 6)])"
    using RateLimited_sliding_window [of rl_opts25 2 2500 "Map.empty" "''C''" "''m''" 2300
      count_op 7 "[]" "[(0, 2200), (5, 1100)]" "Map.empty" "[]" "[Value 0, Value 6]"
      "[''C:m'' \<mapsto> [2200, 1100]]" "[(0, Value 0), (5, Value 6)]"]
      rl_witness_run
    by (simp add: rl_opts25_def stored_def)
  then obtain secs :: int where s: "1000 * (secs - 1) < 1300" "1300 \<le> 1000 * secs"
    and call: "RateLimited rl_opts25 ''m'' count_op ''C'' 7 2300
                [''C:m'' \<mapsto> [2200, 1100]] [(0, Value 0), (5, Value 6)] =
              (Thrown (RateLimitExceeded ''m'' (Some secs)),
                [''C:m'' \<mapsto> [2200, 1100]], [(0, Value 0), (5, Value 6)])"
    by auto
  from s(1) have "secs < 3" by simp
  moreover from s(2) have "1 < secs" by simp
  ultimately have "secs = 2" by simp
  with call none rl_witness_run show ?thesis
    by (simp add: rl_opts25_def resetTime_def oldestRequest_def)
qed

text \<open>
  C7 as stated fails where it bounds what the error reports by \<open>W\<close>: with a window of 2500
  milliseconds, two calls at 1000 and 1200 and a third at 1400, the time until the oldest
  timestamp leaves the window is 2100, and the error reports 3 seconds, more than the
  window.  With limit 0 the first call on a fresh key is refused and its error reports
  no finite time.
\<close>

theorem RateLimited_reports_more_than_window:
  "rl_run rl_opts25 ''m'' count_op ''C'' [(0, 1000), (5, 1200)] Map.empty [] =
     ([Value 0, Value 6], [''C:m'' \<mapsto> [1000, 1200]], [(0, Value 0), (5, Value 6)])
   \<and> RateLimited rl_opts25 ''m'' count_op ''C'' 7 1400
         [''C:m'' \<mapsto> [1000, 1200]] [(0, Value 0), (5, Value 6)] =
       (Thrown (RateLimitExceeded ''m'' (Some 3)),
         [''C:m'' \<mapsto> [1000, 1200]], [(0, Value 0), (5, Value 6)])
   \<and> resetTime rl_opts25 [1000, 1200] 1400 = Some 2100
   \<and> window rl_opts25 < 3 * 1000
   \<and> RateLimited rl_opts0 ''m'' count_op ''C'' 7 1400 Map.empty [] =
       (Thrown (RateLimitExceeded ''m'' None), Map.empty, [])"
  by (simp add: rl_eval)

text \<open>
  C9: a call that is refused (the original method was not reached) leaves
  \<^verbatim>\<open>rateLimitState\<close> exactly as it was: neither its own timestamp nor the pruned list is
  stored, so every later sequence of calls runs as if the refused call had not happened.
\<close>

theorem RateLimited_reject_keeps_state:
  assumes "RateLimited opts m f cls args now st log = (r, st', log')"
    and "log' = log"
  shows "st' = st
       \<and> r = Thrown (RateLimitExceeded m (map_option ceil_seconds
                (resetTime opts (requestTimestamps opts st (rl_key cls m) now) now)))
       \<and> rl_run opts m f cls cs st' log' = rl_run opts m f cls cs st log"
proof (cases "limit opts \<le> int (length (requestTimestamps opts st (rl_key cls m) now))")
  case True
  from RateLimited_rejected[OF True, of f args log] assms show ?thesis by simp
next
  case False
  then have "int (length (requestTimestamps opts st (rl_key cls m) now)) < limit opts" by simp
  from RateLimited_admitted[OF this, of f args log] assms show ?thesis by simp
qed

theorem RateLimited_reject_keeps_state_witness:
  "RateLimited rl_opts2 ''m'' count_op ''C'' 7 300
         [''C:m'' \<mapsto> [100, 200]] [(0, Value 0), (5, Value 6)] =
       (Thrown (RateLimitExceeded ''m'' (Some 1)),
         [''C:m'' \<mapsto> [100, 200]], [(0, Value 0), (5, Value 6)])
   \<and> rl_run rl_opts2 ''m'' count_op ''C'' [(1, 1200)]
         [''C:m'' \<mapsto> [100, 200]] [(0, Value 0), (5, Value 6)] =
       ([Value 3], [''C:m'' \<mapsto> [1200]], [(0, Value 0), (5, Value 6), (1, Value 3)])"
proof -
  have call: "RateLimited rl_opts2 ''m'' count_op ''C'' 7 300
         [''C:m'' \<mapsto> [100, 200]] [(0, Value 0), (5, Value 6)] =
       (Thrown (RateLimitExceeded ''m'' (Some 1)),
         [''C:m'' \<mapsto> [100, 200]], [(0, Value 0), (5, Value 6)])"
    by (simp add: rl_opts2_def count_op_def RateLimited_def Let_def rl_key_def
      requestTimestamps_def stored_def invoke_def resetTime_def oldestRequest_def ceil_seconds_def)
  from RateLimited_reject_keeps_state [OF call refl, of "[(1, 1200)]"] call
  show ?thesis
    by (simp add: rl_opts2_def count_op_def RateLimited_def Let_def rl_key_def
      requestTimestamps_def stored_def invoke_def)
qed

section \<open>Properties of Retry\<close>

declare execute.simps [simp del]

lemma execute_done:
  assumes "outcome (f log args) \<noteq> Rejected e \<or> maxRetries opts + 1 \<le> int (Suc a)"
    and "outcome (f log args) = Rejected e \<or> (\<forall>e'. outcome (f log args) \<noteq> Rejected e')"
  shows "execute opts f args a log = (outcome (f log args), [], [], log @ [(args, f log args)])"
  using assms
  by (subst execute.simps) (auto simp: invoke_eq split: settlement.splits)

lemma execute_retry:
  assumes "outcome (f log args) = Rejected e" and "int (Suc a) < maxRetries opts + 1"
  shows "execute opts f args a log =
     (case execute opts f args (Suc a) (log @ [(args, f log args)]) of
        (s, delays, retried, log'') \<Rightarrow>
          (s, retry_delay opts (Suc a) # delays,
           (if onRetry opts then [(e, Suc a)] else []) @ retried, log''))"
  using assms
  by (subst execute.simps) (simp add: invoke_eq)

lemma execute_cases:
  obtains (final) "execute opts f args a log = (outcome (f log args), [], [], log @ [(args, f log args)])"
      "(\<forall>e. outcome (f log args) \<noteq> Rejected e) \<or> maxRetries opts + 1 \<le> int (Suc a)"
  | (retry) e where "outcome (f log args) = Rejected e" "int (Suc a) < maxRetries opts + 1"
      "execute opts f args a log =
     (case execute opts f args (Suc a) (log @ [(args, f log args)]) of
        (s, delays, retried, log'') \<Rightarrow>
          (s, retry_delay opts (Suc a) # delays,
           (if onRetry opts then [(e, Suc a)] else []) @ retried, log''))"
proof (cases "outcome (f log args)")
  case (Resolved v)
  then show ?thesis using execute_done[of f log args _ opts a] final by auto
next
  case (Rejected e)
  show ?thesis
  proof (cases "int (Suc a) < maxRetries opts + 1")
    case True
    then show ?thesis using execute_retry[of f log args e a opts] retry Rejected by blast
  next
    case False
    then show ?thesis using execute_done[of f log args e opts a] final Rejected by auto
  qed
next
  case Unsettled
  then show ?thesis using execute_done[of f log args _ opts a] final by auto
qed

lemma execute_trace:
  "execute opts f args a log = (s, ws, cbs, log') \<Longrightarrow>
     \<exists>new. log' = log @ new \<and> length new = Suc (length ws)
           \<and> (\<forall>i < length new. new ! i = (args, f (log @ take i new) args))
           \<and> s = outcome (snd (last new))
           \<and> (\<forall>i < length ws. failed (snd (new ! i)))
           \<and> (maxRetries opts + 1 \<le> int (a + length new) \<or> \<not> failed (snd (last new)))
           \<and> int (a + length new) \<le> max (maxRetries opts + 1) (int (Suc a))"
proof (induction opts f args a log arbitrary: s ws cbs log' rule: execute.induct)
  case (1 opts f args a log)
  define r where "r = f log args"
  define log1 where "log1 = log @ [(args, r)]"
  show ?case
  proof (cases rule: execute_cases[of opts f args a log])
    case final
    with "1.prems" have "s = outcome r" "ws = []" "log' = log @ [(args, r)]"
      by (simp_all add: r_def)
    moreover have "maxRetries opts + 1 \<le> int (Suc a) \<or> \<not> failed r"
      using final(2) by (auto simp: r_def failed_iff)
    ultimately show ?thesis
      by (intro exI[of _ "[(args, r)]"]) (auto simp: r_def)
  next
    case (retry e)
    obtain s1 ws1 cbs1 log2 where rec: "execute opts f args (Suc a) log1 = (s1, ws1, cbs1, log2)"
      by (metis prod_cases4)
    from retry(3) rec "1.prems" have eqs: "s = s1" "ws = retry_delay opts (Suc a) # ws1" "log' = log2"
      by (simp_all add: log1_def r_def)
    have inv: "invoke f args log = (r, log1)" by (simp add: invoke_eq r_def log1_def)
    have out: "outcome r = Rejected e" using retry(1) by (simp add: r_def)
    have nb: "\<not> maxRetries opts + 1 \<le> int (Suc a)" using retry(2) by simp
    from "1.IH"[OF inv[symmetric] out nb rec]
    obtain new1 where n1: "log2 = log1 @ new1" "length new1 = Suc (length ws1)"
      "\<forall>i < length new1. new1 ! i = (args, f (log1 @ take i new1) args)"
      "s1 = outcome (snd (last new1))"
      "\<forall>i < length ws1. failed (snd (new1 ! i))"
      "maxRetries opts + 1 \<le> int (Suc a + length new1) \<or> \<not> failed (snd (last new1))"
      "int (Suc a + length new1) \<le> max (maxRetries opts + 1) (int (Suc (Suc a)))"
      by blast
    have ne: "new1 \<noteq> []" using n1(2) by auto
    have fr: "failed r" using out by (simp add: failed_iff)
    have "\<forall>i < length ws. failed (snd (((args, r) # new1) ! i))"
      using n1(5) fr eqs(2) by (auto simp: nth_Cons split: nat.splits)
    moreover have "int (a + length ((args, r) # new1)) \<le> max (maxRetries opts + 1) (int (Suc a))"
      using n1(7) retry(2) by simp
    moreover have "\<forall>i < length ((args, r) # new1).
        ((args, r) # new1) ! i = (args, f (log @ take i ((args, r) # new1)) args)"
    proof (intro allI impI)
      fix i assume "i < length ((args, r) # new1)"
      then show "((args, r) # new1) ! i = (args, f (log @ take i ((args, r) # new1)) args)"
        using n1(3) by (cases i) (simp_all add: r_def log1_def)
    qed
    ultimately show ?thesis
      using n1(1,2,4,6) ne eqs
      by (intro exI[of _ "(args, r) # new1"]) (simp add: log1_def)
  qed
qed

lemma execute_delays:
  "execute opts f args a log = (s, ws, cbs, log') \<Longrightarrow>
     \<forall>i < length ws. ws ! i = retry_delay opts (Suc a + i)"
proof (induction opts f args a log arbitrary: s ws cbs log' rule: execute.induct)
  case (1 opts f args a log)
  define r where "r = f log args"
  define log1 where "log1 = log @ [(args, r)]"
  show ?case
  proof (cases rule: execute_cases[of opts f args a log])
    case final
    with "1.prems" show ?thesis by simp
  next
    case (retry e)
    obtain s1 ws1 cbs1 log2 where rec: "execute opts f args (Suc a) log1 = (s1, ws1, cbs1, log2)"
      by (metis prod_cases4)
    from retry(3) rec "1.prems" have eqs: "ws = retry_delay opts (Suc a) # ws1"
      by (simp_all add: log1_def r_def)
    have inv: "invoke f args log = (r, log1)" by (simp add: invoke_eq r_def log1_def)
    have out: "outcome r = Rejected e" using retry(1) by (simp add: r_def)
    have nb: "\<not> maxRetries opts + 1 \<le> int (Suc a)" using retry(2) by simp
    from "1.IH"[OF inv[symmetric] out nb rec]
    have ih: "\<forall>i < length ws1. ws1 ! i = retry_delay opts (Suc (Suc a) + i)" .
    show ?thesis
    proof (intro allI impI)
      fix i assume "i < length ws"
      then show "ws ! i = retry_delay opts (Suc a + i)"
        using ih eqs by (cases i) simp_all
    qed
  qed
qed

lemma sum_take_pow:
  assumes "\<forall>i < length ws. ws ! i = (B::int) * 2 ^ i" and "k \<le> length ws"
  shows "sum_list (take k ws) = B * (\<Sum>i<k. 2 ^ i)"
  using assms(2)
proof (induction k)
  case 0
  then show ?case by simp
next
  case (Suc k)
  then have "take (Suc k) ws = take k ws @ [ws ! k]"
    by (simp add: take_Suc_conv_app_nth)
  with Suc assms(1) show ?case by (simp add: distrib_left)
qed

lemma take_timer_delay:
  assumes "\<forall>i < k. 1 \<le> ws ! i \<and> ws ! i \<le> 2147483647" and "k \<le> length ws"
  shows "take k (map timer_delay ws) = take k ws"
proof (rule nth_equalityI)
  show "length (take k (map timer_delay ws)) = length (take k ws)" by simp
next
  fix i assume "i < length (take k (map timer_delay ws))"
  then have i: "i < k" "i < length ws" using assms(2) by simp_all
  from assms(1) i(1) have "1 \<le> ws ! i \<and> ws ! i \<le> 2147483647" by blast
  then have "timer_delay (ws ! i) = ws ! i" by (simp add: timer_delay_def)
  with i show "take k (map timer_delay ws) ! i = take k ws ! i" by simp
qed

lemma pow_delays_in_range:
  assumes "1 \<le> (B::int)" and "B * 2 ^ (k - 1) \<le> 2147483647" and "i < k"
  shows "1 \<le> B * 2 ^ i \<and> B * 2 ^ i \<le> 2147483647"
proof -
  have "(1::int) \<le> 2 ^ i" by simp
  with assms(1) have "1 * 1 \<le> B * 2 ^ i" by (intro mult_mono) simp_all
  moreover have "(2::int) ^ i \<le> 2 ^ (k - 1)" using assms(3) by (intro power_increasing) simp_all
  then have "B * 2 ^ i \<le> B * 2 ^ (k - 1)" using assms(1) by (intro mult_left_mono) simp_all
  ultimately show ?thesis using assms(2) by simp
qed

text \<open>
  C2: with \<open>maxRetries = N \<ge> 0\<close> and a method that fails on every attempt, one call of the
  wrapped method invokes the method exactly \<open>N + 1\<close> times (always with the caller's
  arguments), and the returned promise rejects with the very error of the last
  invocation.
\<close>

theorem Retry_budget:
  assumes "0 \<le> maxRetries opts"
    and "\<forall>log. failed (f log args)"
    and "Retry opts f args log = (r, ws, cbs, log')"
  shows "\<exists>new e. log' = log @ new \<and> int (length new) = maxRetries opts + 1
           \<and> (\<forall>i < length new. new ! i = (args, f (log @ take i new) args))
           \<and> outcome (snd (last new)) = Rejected e \<and> r = Promise (Rejected e)"
proof -
  obtain s where ex: "execute opts f args 0 log = (s, ws, cbs, log')" and r: "r = Promise s"
    using assms(3) by (auto simp: Retry_def split: prod.splits)
  from execute_trace[OF ex]
  obtain new where n: "log' = log @ new" "length new = Suc (length ws)"
    "\<forall>i < length new. new ! i = (args, f (log @ take i new) args)"
    "s = outcome (snd (last new))"
    "maxRetries opts + 1 \<le> int (0 + length new) \<or> \<not> failed (snd (last new))"
    "int (0 + length new) \<le> max (maxRetries opts + 1) (int (Suc 0))"
    by blast
  have ne: "new \<noteq> []" using n(2) by auto
  then have "last new = new ! (length new - 1)" by (rule last_conv_nth)
  also have "\<dots> = (args, f (log @ take (length new - 1) new) args)"
    using n(3) ne by simp
  finally have "failed (snd (last new))" using assms(2) by simp
  then obtain e where e: "outcome (snd (last new)) = Rejected e"
    by (auto simp: failed_iff)
  have "int (length new) = maxRetries opts + 1"
    using n(5,6) \<open>failed (snd (last new))\<close> assms(1) by simp
  with n(1,3,4) e r show ?thesis by auto
qed

theorem Retry_budget_witness:
  "0 \<le> maxRetries (retry_opts 2 Normal) \<and> (\<forall>log. failed (failing_op log 7))
   \<and> Retry (retry_opts 2 Normal) failing_op 7 [] =
     (Promise (Rejected 2), [100, 100], [(0, 1), (1, 2)],
      [(7, Promise (Rejected 0)), (7, Promise (Rejected 1)), (7, Promise (Rejected 2))])"
proof -
  have run: "Retry (retry_opts 2 Normal) failing_op 7 [] =
     (Promise (Rejected 2), [100, 100], [(0, 1), (1, 2)],
      [(7, Promise (Rejected 0)), (7, Promise (Rejected 1)), (7, Promise (Rejected 2))])"
    by (simp add: Retry_def execute.simps invoke_eq retry_opts_def failing_op_def
        retry_delay_def base_backoff_def)
  have "0 \<le> maxRetries (retry_opts 2 Normal)" by (simp add: retry_opts_def)
  moreover have "\<forall>log. failed (failing_op log 7)" by (simp add: failing_op_def failed_def)
  ultimately show ?thesis using Retry_budget [OF _ _ run] run by blast
qed

text \<open>
  C8 (as amended): with the configured base backoff \<open>B\<close> (1000 when the option is omitted),
  the delay handed to the timer after the \<open>a\<close>-th failed attempt is \<open>B * 2 ^ (a - 1)\<close> under
  the exponential strategy, so the first \<open>k\<close> delays add up to \<open>B * (2^0 + ... + 2^(k-1))\<close>;
  under the normal strategy every delay is \<open>B\<close>.  The timers run that long as long as the
  delays lie in their range, from 1 to 2147483647: for \<open>B \<ge> 1\<close> and
  \<open>B * 2 ^ (k - 1) \<le> 2147483647\<close> the timers before the \<open>k\<close>-th retry run for
  \<open>B * (2^0 + ... + 2^(k-1))\<close> in all, and under the normal strategy with \<open>B\<close> in the range
  every timer runs for \<open>B\<close>.  A delay outside the range makes its timer run for 1.  The
  delays are one fewer than the invocations, the \<open>a\<close>-th following the \<open>a\<close>-th failure.
\<close>

theorem Retry_backoff:
  assumes B: "backoff opts = Some B \<or> (backoff opts = None \<and> B = 1000)"
    and run: "Retry opts f args log = (r, ws, cbs, log')"
  shows "(strategy opts = Exponential \<longrightarrow>
            (\<forall>a. 1 \<le> a \<and> a \<le> length ws \<longrightarrow> ws ! (a - 1) = B * 2 ^ (a - 1))
          \<and> (\<forall>k \<le> length ws. sum_list (take k ws) = B * (\<Sum>i<k. 2 ^ i)))
       \<and> (strategy opts = Normal \<longrightarrow> (\<forall>w \<in> set ws. w = B))
       \<and> (strategy opts = Exponential \<longrightarrow>
            (\<forall>k \<le> length ws. 1 \<le> B \<and> B * 2 ^ (k - 1) \<le> 2147483647 \<longrightarrow>
               sum_list (take k (map timer_delay ws)) = B * (\<Sum>i<k. 2 ^ i)))
       \<and> (strategy opts = Normal \<and> 1 \<le> B \<and> B \<le> 2147483647 \<longrightarrow>
            (\<forall>w \<in> set ws. timer_delay w = B))
       \<and> (\<forall>a. 1 \<le> a \<and> a \<le> length ws
                \<and> (ws ! (a - 1) < 1 \<or> 2147483647 < ws ! (a - 1)) \<longrightarrow>
              map timer_delay ws ! (a - 1) = 1)
       \<and> (\<exists>new. log' = log @ new \<and> length new = Suc (length ws)
              \<and> (\<forall>a. 1 \<le> a \<and> a \<le> length ws \<longrightarrow> failed (snd (new ! (a - 1)))))"
proof -
  obtain s where ex: "execute opts f args 0 log = (s, ws, cbs, log')"
    using run by (auto simp: Retry_def split: prod.splits)
  have b: "base_backoff opts = B" using B by (auto simp: base_backoff_def)
  have d: "\<forall>i < length ws. ws ! i = retry_delay opts (Suc i)"
    using execute_delays[OF ex] by simp
  have expo: "\<forall>i < length ws. ws ! i = B * 2 ^ i" if "strategy opts = Exponential"
    using d that b by (simp add: retry_delay_def)
  have norm: "\<forall>i < length ws. ws ! i = B" if "strategy opts = Normal"
    using d that b by (simp add: retry_delay_def)
  have 1: "\<forall>a. 1 \<le> a \<and> a \<le> length ws \<longrightarrow> ws ! (a - 1) = B * 2 ^ (a - 1)"
    if "strategy opts = Exponential"
  proof (intro allI impI)
    fix a :: nat assume "1 \<le> a \<and> a \<le> length ws"
    then have "a - 1 < length ws" by arith
    with expo[OF that] show "ws ! (a - 1) = B * 2 ^ (a - 1)" by blast
  qed
  have 2: "\<forall>k \<le> length ws. sum_list (take k ws) = B * (\<Sum>i<k. 2 ^ i)"
    if "strategy opts = Exponential"
    using sum_take_pow[OF expo[OF that]] by blast
  have 3: "\<forall>w \<in> set ws. w = B" if "strategy opts = Normal"
    using norm[OF that] by (auto simp: in_set_conv_nth)
  have 4: "\<forall>k \<le> length ws. 1 \<le> B \<and> B * 2 ^ (k - 1) \<le> 2147483647 \<longrightarrow>
               sum_list (take k (map timer_delay ws)) = B * (\<Sum>i<k. 2 ^ i)"
    if e: "strategy opts = Exponential"
  proof (intro allI impI)
    fix k assume k: "k \<le> length ws" and r: "1 \<le> B \<and> B * 2 ^ (k - 1) \<le> 2147483647"
    have "\<forall>i < k. 1 \<le> ws ! i \<and> ws ! i \<le> 2147483647"
    proof (intro allI impI)
      fix i assume i: "i < k"
      with k expo[OF e] have "ws ! i = B * 2 ^ i" by simp
      with pow_delays_in_range[of B k i] r i
      show "1 \<le> ws ! i \<and> ws ! i \<le> 2147483647" by simp
    qed
    from take_timer_delay[OF this k] 2[OF e] k
    show "sum_list (take k (map timer_delay ws)) = B * (\<Sum>i<k. 2 ^ i)" by simp
  qed
  have 7: "\<forall>w \<in> set ws. timer_delay w = B"
    if "strategy opts = Normal \<and> 1 \<le> B \<and> B \<le> 2147483647"
    using 3 that by (auto simp: timer_delay_def)
  have 5: "\<forall>a. 1 \<le> a \<and> a \<le> length ws
                \<and> (ws ! (a - 1) < 1 \<or> 2147483647 < ws ! (a - 1)) \<longrightarrow>
              map timer_delay ws ! (a - 1) = 1"
  proof (intro allI impI)
    fix a :: nat
    assume h: "1 \<le> a \<and> a \<le> length ws \<and> (ws ! (a - 1) < 1 \<or> 2147483647 < ws ! (a - 1))"
    then have "a - 1 < length ws" by arith
    then have "map timer_delay ws ! (a - 1) = timer_delay (ws ! (a - 1))" by simp
    with h show "map timer_delay ws ! (a - 1) = 1" by (auto simp: timer_delay_def)
  qed
  from execute_trace[OF ex]
  obtain new where n: "log' = log @ new" "length new = Suc (length ws)"
    "\<forall>i < length ws. failed (snd (new ! i))"
    by blast
  have 6: "\<exists>new. log' = log @ new \<and> length new = Suc (length ws)
              \<and> (\<forall>a. 1 \<le> a \<and> a \<le> length ws \<longrightarrow> failed (snd (new ! (a - 1))))"
  proof (intro exI[of _ new] conjI allI impI)
    fix a :: nat assume "1 \<le> a \<and> a \<le> length ws"
    then have "a - 1 < length ws" by arith
    with n(3) show "failed (snd (new ! (a - 1)))" by blast
  qed (use n in simp_all)
  from 1 2 3 4 5 6 7 show ?thesis by blast
qed

lemmas retry_eval = Retry_def execute.simps invoke_eq retry_with_def retry_long_def
  flaky_op_def failing_op_def retry_delay_def base_backoff_def

theorem Retry_backoff_witness:
  "Retry (retry_with (Some 250) Exponential) flaky_op 7 [] =
     (Promise (Resolved 7), [250, 500], [],
      [(7, Promise (Rejected 0)), (7, Promise (Rejected 1)), (7, Promise (Resolved 7))])
   \<and> sum_list (take 2 [250, 500 :: int]) = 250 * (\<Sum>i<2. 2 ^ i)
   \<and> sum_list (take 2 (map timer_delay [250, 500])) = 250 * (\<Sum>i<2. 2 ^ i)
   \<and> Retry (retry_with None Normal) flaky_op 7 [] =
     (Promise (Resolved 7), [1000, 1000], [],
      [(7, Promise (Rejected 0)), (7, Promise (Rejected 1)), (7, Promise (Resolved 7))])
   \<and> Retry retry_long failing_op 7 [] =
     (Promise (Rejected 2), [1073741824, 2147483648], [],
      [(7, Promise (Rejected 0)), (7, Promise (Rejected 1)), (7, Promise (Rejected 2))])
   \<and> map timer_delay [1073741824, 2147483648] ! (2 - 1) = 1"
proof -
  have run: "Retry (retry_with (Some 250) Exponential) flaky_op 7 [] =
     (Promise (Resolved 7), [250, 500], [],
      [(7, Promise (Rejected 0)), (7, Promise (Rejected 1)), (7, Promise (Resolved 7))])"
    by (simp add: retry_eval)
  have run2: "Retry (retry_with None Normal) flaky_op 7 [] =
     (Promise (Resolved 7), [1000, 1000], [],
      [(7, Promise (Rejected 0)), (7, Promise (Rejected 1)), (7, Promise (Resolved 7))])"
    by (simp add: retry_eval)
  have run3: "Retry retry_long failing_op 7 [] =
     (Promise (Rejected 2), [1073741824, 2147483648], [],
      [(7, Promise (Rejected 0)), (7, Promise (Rejected 1)), (7, Promise (Rejected 2))])"
    by (simp add: retry_eval)
  have b: "backoff (retry_with (Some 250) Exponential) = Some 250
      \<or> (backoff (retry_with (Some 250) Exponential) = None \<and> (250::int) = 1000)"
    and b2: "backoff (retry_with None Normal) = Some 1000
      \<or> (backoff (retry_with None Normal) = None \<and> (1000::int) = 1000)"
    and b3: "backoff retry_long = Some 1073741824
      \<or> (backoff retry_long = None \<and> (1073741824::int) = 1000)"
    by (simp_all add: retry_with_def retry_long_def)
  have e: "strategy (retry_with (Some 250) Exponential) = Exponential"
    by (simp add: retry_with_def)
  note w = Retry_backoff [OF b run]
  from w e have "\<forall>k \<le> length [250, 500 :: int].
      sum_list (take k [250, 500 :: int]) = 250 * (\<Sum>i<k. 2 ^ i)"
    by blast
  from this[rule_format, of 2]
  have s1: "sum_list (take 2 [250, 500 :: int]) = 250 * (\<Sum>i<2. 2 ^ i)" by simp
  from w e have "\<forall>k \<le> length [250, 500 :: int].
      1 \<le> (250::int) \<and> (250::int) * 2 ^ (k - 1) \<le> 2147483647 \<longrightarrow>
      sum_list (take k (map timer_delay [250, 500])) = 250 * (\<Sum>i<k. 2 ^ i)"
    by blast
  from this[rule_format, of 2]
  have s2: "sum_list (take 2 (map timer_delay [250, 500])) = 250 * (\<Sum>i<2. 2 ^ i)"
    by simp
  from Retry_backoff [OF b3 run3]
  have "\<forall>a. 1 \<le> a \<and> a \<le> length [1073741824, 2147483648 :: int]
          \<and> ([1073741824, 2147483648 :: int] ! (a - 1) < 1
              \<or> 2147483647 < [1073741824, 2147483648 :: int] ! (a - 1)) \<longrightarrow>
        map timer_delay [1073741824, 2147483648] ! (a - 1) = 1"
    by blast
  from this[rule_format, of 2]
  have s3: "map timer_delay [1073741824, 2147483648] ! (2 - 1) = 1" by simp
  from Retry_backoff [OF b2 run2] run run2 run3 s1 s2 s3 show ?thesis by blast
qed

text \<open>
  C8 as stated fails for long delays: with base backoff 1073741824 the second exponential
  delay is 2147483648, which the timer replaces by 1, so the timers before the second
  retry run for 1073741825 in all, less than \<open>B * (2^0 + 2^1)\<close>.
\<close>

theorem Retry_wait_is_cut_beyond_timer_range:
  "Retry retry_long failing_op 7 [] =
     (Promise (Rejected 2), [1073741824, 2147483648], [],
      [(7, Promise (Rejected 0)), (7, Promise (Rejected 1)), (7, Promise (Rejected 2))])
   \<and> map timer_delay [1073741824, 2147483648] = [1073741824, 1]
   \<and> sum_list (map timer_delay [1073741824, 2147483648]) < 1073741824 * (2 ^ 0 + 2 ^ 1)"
  by (simp add: retry_eval timer_delay_def)

section \<open>Properties of CircuitBreaker\<close>

lemma updateState_simps [simp]:
  "state (updateState opts s c) = s"
  "failures (updateState opts s c) = failures c"
  "lastFailureTime (updateState opts s c) = lastFailureTime c"
  by (simp_all add: updateState_def)

lemma updateState_same: "state c = s \<Longrightarrow> updateState opts s c = c"
  by (simp add: updateState_def)

lemma handleFailure_simps:
  "failures (handleFailure opts t c) = failures c + 1"
  "lastFailureTime (handleFailure opts t c) = t"
  "state (handleFailure opts t c) =
     (if failureThreshold opts \<le> failures c + 1 then Open else state c)"
  by (simp_all add: handleFailure_def Let_def)

lemma handleSuccess_simps:
  "state (handleSuccess opts c) = (if state c = HalfOpen then Closed else state c)"
  "failures (handleSuccess opts c) = (if state c = HalfOpen then 0 else failures c)"
  "state c \<noteq> HalfOpen \<Longrightarrow> handleSuccess opts c = c"
  by (simp_all add: handleSuccess_def)

lemma admit_refuses:
  "state c = Open \<Longrightarrow> now - lastFailureTime c < resetTimeout opts \<Longrightarrow> admit opts now c = None"
  by (simp add: admit_def)

lemma admit_half_open:
  "state c = Open \<Longrightarrow> resetTimeout opts \<le> now - lastFailureTime c \<Longrightarrow>
     admit opts now c = Some (updateState opts HalfOpen c)"
  by (simp add: admit_def)

lemma admit_passes: "state c \<noteq> Open \<Longrightarrow> admit opts now c = Some c"
  by (simp add: admit_def)

lemma CircuitBreaker_refused:
  "admit opts now c = None \<Longrightarrow>
     CircuitBreaker opts f args now failedAt c log = (Promise (Rejected CircuitOpen), c, log)"
  by (simp add: CircuitBreaker_def)

lemma CircuitBreaker_admitted:
  "admit opts now c = Some c1 \<Longrightarrow>
     CircuitBreaker opts f args now failedAt c log =
       (Promise (outcome (f log args)),
        (case outcome (f log args) of
           Resolved v \<Rightarrow> handleSuccess opts c1
         | Rejected e \<Rightarrow> handleFailure opts failedAt c1
         | Unsettled \<Rightarrow> c1),
        log @ [(args, f log args)])"
  by (simp add: CircuitBreaker_def invoke_def Let_def split: settlement.splits)

lemma admit_inv: "cb_inv opts c \<Longrightarrow> admit opts now c = Some c1 \<Longrightarrow> cb_inv opts c1"
  by (auto simp: admit_def cb_inv_def split: if_splits)

lemma CircuitBreaker_inv:
  assumes "cb_inv opts c" and "CircuitBreaker opts f args now failedAt c log = (r, c', log')"
  shows "cb_inv opts c'"
proof (cases "admit opts now c")
  case None
  with assms show ?thesis by (simp add: CircuitBreaker_refused)
next
  case (Some c1)
  then have c1: "cb_inv opts c1" using assms(1) admit_inv by blast
  from assms(2) have c': "c' = (case outcome (f log args) of
           Resolved v \<Rightarrow> handleSuccess opts c1
         | Rejected e \<Rightarrow> handleFailure opts failedAt c1
         | Unsettled \<Rightarrow> c1)"
    by (simp add: CircuitBreaker_admitted[OF Some])
  show ?thesis
    using c1 unfolding c' cb_inv_def
    by (cases "outcome (f log args)") (auto simp: handleSuccess_simps handleFailure_simps)
qed

lemma cb_run_inv:
  "cb_inv opts c \<Longrightarrow> cb_run opts f cs c log = (rs, c', log') \<Longrightarrow> cb_inv opts c'"
proof (induction cs arbitrary: c log rs)
  case Nil
  then show ?case by simp
next
  case (Cons x cs)
  obtain args now failedAt where x: "x = (args, now, failedAt)" by (cases x)
  obtain r c1 log1 where call: "CircuitBreaker opts f args now failedAt c log = (r, c1, log1)"
    by (metis prod_cases3)
  obtain rs1 where run: "cb_run opts f cs c1 log1 = (rs1, c', log')"
    using Cons.prems(2) by (auto simp: x call split: prod.splits)
  from CircuitBreaker_inv[OF Cons.prems(1) call] run show ?case by (rule Cons.IH)
qed

lemma cb_run_closed:
  assumes "state c = Closed"
    and "cb_run opts f cs c log = (rs, c', log')"
    and "failures c + int (length (filter failed rs)) < failureThreshold opts"
  shows "state c' = Closed \<and> failures c' = failures c + int (length (filter failed rs))"
  using assms
proof (induction cs arbitrary: c log rs)
  case Nil
  then show ?case by auto
next
  case (Cons x cs)
  obtain args now failedAt where x: "x = (args, now, failedAt)" by (cases x)
  define res where "res = f log args"
  define c1 where "c1 = (case outcome res of
           Resolved v \<Rightarrow> handleSuccess opts c
         | Rejected e \<Rightarrow> handleFailure opts failedAt c
         | Unsettled \<Rightarrow> c)"
  have adm: "admit opts now c = Some c" using Cons.prems(1) by (simp add: admit_passes)
  have call: "CircuitBreaker opts f args now failedAt c log =
      (Promise (outcome res), c1, log @ [(args, res)])"
    by (simp add: CircuitBreaker_admitted[OF adm] c1_def res_def)
  obtain rs1 where run: "cb_run opts f cs c1 (log @ [(args, res)]) = (rs1, c', log')"
    and rs: "rs = Promise (outcome res) # rs1"
    using Cons.prems(2) by (auto simp: x call split: prod.splits)
  have fp: "failed (Promise (outcome res)) = failed res" by (simp add: failed_def)
  have cnt: "int (length (filter failed rs)) =
      (if failed res then 1 else 0) + int (length (filter failed rs1))"
    by (simp add: rs fp)
  have fr: "failed res = (case outcome res of Rejected e \<Rightarrow> True | _ \<Rightarrow> False)"
    by (simp add: failed_def)
  have lt: "failures c + (if failed res then 1 else 0) < failureThreshold opts"
    using Cons.prems(3) cnt by simp
  have f1: "failures c1 = failures c + (if failed res then 1 else 0)"
    using Cons.prems(1) fr
    by (cases "outcome res") (simp_all add: c1_def handleSuccess_simps handleFailure_simps)
  have s1: "state c1 = Closed"
    using Cons.prems(1) lt fr
    by (cases "outcome res") (simp_all add: c1_def handleSuccess_simps handleFailure_simps)
  have "failures c1 + int (length (filter failed rs1)) < failureThreshold opts"
    using Cons.prems(3) cnt f1 by simp
  from Cons.IH[OF s1 run this] show ?case using f1 cnt by simp
qed

text \<open>
  C1: let \<open>c\<close> be the state of a breaker with \<open>failureThreshold = F\<close> and
  \<open>resetTimeout = R\<close> after any sequence of awaited calls from the initial state (Closed,
  no failures).  While fewer than \<open>F\<close> calls have failed the breaker is Closed and has
  counted them; the failure that makes the count \<open>F\<close> opens it.  A call while Open with
  \<open>now - lastFailureTime < R\<close> is rejected with the circuit-open error, without invoking
  the method and without changing the state.  A call while Open with
  \<open>now - lastFailureTime \<ge> R\<close> moves the breaker to Half-Open and invokes the method once;
  if the method succeeds the breaker is Closed with no failures, if it fails the breaker
  is Open again and \<open>lastFailureTime\<close> is the time of that failure.
\<close>

theorem CircuitBreaker_transitions:
  assumes F: "failureThreshold opts = F" and R: "resetTimeout opts = R"
    and run: "cb_run opts f cs circuitState0 log0 = (rs, c, log)"
    and call: "CircuitBreaker opts f args now failedAt c log = (r, c', log')"
  shows "(int (length (filter failed rs)) < F \<longrightarrow>
            state c = Closed \<and> failures c = int (length (filter failed rs)))
       \<and> (state c = Closed \<and> failures c < F - 1 \<and> failed (f log args) \<longrightarrow>
            state c' = Closed \<and> failures c' = failures c + 1)
       \<and> (state c = Closed \<and> failures c = F - 1 \<and> failed (f log args) \<longrightarrow>
            state c' = Open \<and> failures c' = F \<and> lastFailureTime c' = failedAt)
       \<and> (state c = Open \<and> now - lastFailureTime c < R \<longrightarrow>
            r = Promise (Rejected CircuitOpen) \<and> c' = c \<and> log' = log)
       \<and> (state c = Open \<and> R \<le> now - lastFailureTime c \<longrightarrow>
            (\<exists>c1. admit opts now c = Some c1 \<and> state c1 = HalfOpen)
          \<and> log' = log @ [(args, f log args)] \<and> r = Promise (outcome (f log args))
          \<and> (\<not> failed (f log args) \<and> outcome (f log args) \<noteq> Unsettled \<longrightarrow>
                state c' = Closed \<and> failures c' = 0)
          \<and> (failed (f log args) \<longrightarrow> state c' = Open \<and> lastFailureTime c' = failedAt))"
proof (intro conjI impI)
  have inv0: "cb_inv opts circuitState0" by (simp add: cb_inv_def circuitState0_def)
  have inv: "cb_inv opts c" using cb_run_inv[OF inv0 run] .
  have fr: "failed (f log args) = (case outcome (f log args) of Rejected e \<Rightarrow> True | _ \<Rightarrow> False)"
    by (simp add: failed_def)
  {
    assume lt: "int (length (filter failed rs)) < F"
    have "state circuitState0 = Closed" by (simp add: circuitState0_def)
    moreover have "failures circuitState0 + int (length (filter failed rs)) < failureThreshold opts"
      using lt F by (simp add: circuitState0_def)
    ultimately have "state c = Closed \<and>
        failures c = failures circuitState0 + int (length (filter failed rs))"
      using run cb_run_closed by blast
    then show "state c = Closed" "failures c = int (length (filter failed rs))"
      by (simp_all add: circuitState0_def)
  }
  {
    assume h: "state c = Closed \<and> failures c < F - 1 \<and> failed (f log args)"
    then have adm: "admit opts now c = Some c" by (simp add: admit_passes)
    from h obtain e where e: "outcome (f log args) = Rejected e" by (auto simp: failed_iff)
    from call have c': "c' = handleFailure opts failedAt c"
      by (simp add: CircuitBreaker_admitted[OF adm] e)
    show "state c' = Closed" "failures c' = failures c + 1"
      using h F by (simp_all add: c' handleFailure_simps)
  }
  {
    assume h: "state c = Closed \<and> failures c = F - 1 \<and> failed (f log args)"
    then have adm: "admit opts now c = Some c" by (simp add: admit_passes)
    from h obtain e where e: "outcome (f log args) = Rejected e" by (auto simp: failed_iff)
    from call have c': "c' = handleFailure opts failedAt c"
      by (simp add: CircuitBreaker_admitted[OF adm] e)
    show "state c' = Open" "failures c' = F" "lastFailureTime c' = failedAt"
      using h F by (simp_all add: c' handleFailure_simps)
  }
  {
    assume h: "state c = Open \<and> now - lastFailureTime c < R"
    then have "admit opts now c = None" using R by (simp add: admit_refuses)
    from CircuitBreaker_refused[OF this, of f args failedAt log] call
    show "r = Promise (Rejected CircuitOpen)" "c' = c" "log' = log" by simp_all
  }
  {
    assume h: "state c = Open \<and> R \<le> now - lastFailureTime c"
    define c1 where "c1 = updateState opts HalfOpen c"
    have adm: "admit opts now c = Some c1" using h R by (simp add: admit_half_open c1_def)
    have s1: "state c1 = HalfOpen" by (simp add: c1_def)
    have f1: "F \<le> failures c1" using inv h F by (simp add: cb_inv_def c1_def)
    show "\<exists>c1. admit opts now c = Some c1 \<and> state c1 = HalfOpen" using adm s1 by blast
    from call CircuitBreaker_admitted[OF adm, of f args failedAt log]
    have res: "r = Promise (outcome (f log args))" "log' = log @ [(args, f log args)]"
      "c' = (case outcome (f log args) of
           Resolved v \<Rightarrow> handleSuccess opts c1
         | Rejected e \<Rightarrow> handleFailure opts failedAt c1
         | Unsettled \<Rightarrow> c1)" by simp_all
    show "log' = log @ [(args, f log args)]" "r = Promise (outcome (f log args))"
      using res by simp_all
    {
      assume "\<not> failed (f log args) \<and> outcome (f log args) \<noteq> Unsettled"
      then obtain v where "outcome (f log args) = Resolved v"
        using fr by (cases "outcome (f log args)") simp_all
      then show "state c' = Closed" "failures c' = 0"
        using s1 by (simp_all add: res(3) handleSuccess_simps)
    }
    {
      assume "failed (f log args)"
      then obtain e where "outcome (f log args) = Rejected e" by (auto simp: failed_iff)
      then show "state c' = Open" "lastFailureTime c' = failedAt"
        using f1 F by (simp_all add: res(3) handleFailure_simps)
    }
  }
qed

lemmas cb_eval = CircuitBreaker_def admit_def handleFailure_def handleSuccess_def updateState_def
  invoke_def Let_def cb_opts2_def circuitState0_def always_failing_def twice_failing_def

lemma cb_witness_run1:
  "cb_run cb_opts2 always_failing [(1, 10, 11)] circuitState0 [] =
     ([Promise (Rejected (OpError 0))],
      \<lparr>failures = 1, state = Closed, lastFailureTime = 11, changes = []\<rparr>,
      [(1, Promise (Rejected (OpError 0)))])"
  by (simp add: cb_eval)

lemma cb_witness_run2:
  "cb_run cb_opts2 always_failing [(1, 10, 11), (2, 20, 21)] circuitState0 [] =
     ([Promise (Rejected (OpError 0)), Promise (Rejected (OpError 1))], cb_open, cb_log2)"
  by (simp add: cb_eval cb_open_def cb_log2_def)

lemma cb_witness_run3:
  "cb_run cb_opts2 twice_failing [(1, 10, 11), (2, 20, 21)] circuitState0 [] =
     ([Promise (Rejected (OpError 0)), Promise (Rejected (OpError 1))], cb_open, cb_log2)"
  by (simp add: cb_eval cb_open_def cb_log2_def)

theorem CircuitBreaker_transitions_witness:
  "CircuitBreaker cb_opts2 always_failing 2 20 21
       \<lparr>failures = 1, state = Closed, lastFailureTime = 11, changes = []\<rparr>
       [(1, Promise (Rejected (OpError 0)))] =
     (Promise (Rejected (OpError 1)), cb_open, cb_log2)
   \<and> CircuitBreaker cb_opts2 always_failing 3 30 31 cb_open cb_log2 =
     (Promise (Rejected CircuitOpen), cb_open, cb_log2)
   \<and> CircuitBreaker cb_opts2 always_failing 4 121 122 cb_open cb_log2 =
     (Promise (Rejected (OpError 2)),
      \<lparr>failures = 3, state = Open, lastFailureTime = 122, changes = [Open, HalfOpen, Open]\<rparr>,
      cb_log2 @ [(4, Promise (Rejected (OpError 2)))])
   \<and> CircuitBreaker cb_opts2 twice_failing 4 121 122 cb_open cb_log2 =
     (Promise (Resolved 4),
      \<lparr>failures = 0, state = Closed, lastFailureTime = 21, changes = [Open, HalfOpen, Closed]\<rparr>,
      cb_log2 @ [(4, Promise (Resolved 4))])"
proof -
  have o: "failureThreshold cb_opts2 = 2" "resetTimeout cb_opts2 = 100"
    by (simp_all add: cb_opts2_def)
  have A: "CircuitBreaker cb_opts2 always_failing 2 20 21
       \<lparr>failures = 1, state = Closed, lastFailureTime = 11, changes = []\<rparr>
       [(1, Promise (Rejected (OpError 0)))] =
     (Promise (Rejected (OpError 1)), cb_open, cb_log2)"
    by (simp add: cb_eval cb_open_def cb_log2_def)
  have B: "CircuitBreaker cb_opts2 always_failing 3 30 31 cb_open cb_log2 =
     (Promise (Rejected CircuitOpen), cb_open, cb_log2)"
    by (simp add: cb_eval cb_open_def cb_log2_def)
  have C: "CircuitBreaker cb_opts2 always_failing 4 121 122 cb_open cb_log2 =
     (Promise (Rejected (OpError 2)),
      \<lparr>failures = 3, state = Open, lastFailureTime = 122, changes = [Open, HalfOpen, Open]\<rparr>,
      cb_log2 @ [(4, Promise (Rejected (OpError 2)))])"
    by (simp add: cb_eval cb_open_def cb_log2_def)
  have D: "CircuitBreaker cb_opts2 twice_failing 4 121 122 cb_open cb_log2 =
     (Promise (Resolved 4),
      \<lparr>failures = 0, state = Closed, lastFailureTime = 21, changes = [Open, HalfOpen, Closed]\<rparr>,
      cb_log2 @ [(4, Promise (Resolved 4))])"
    by (simp add: cb_eval cb_open_def cb_log2_def)
  note tA = CircuitBreaker_transitions [OF o cb_witness_run1 A]
  note tB = CircuitBreaker_transitions [OF o cb_witness_run2 B]
  note tC = CircuitBreaker_transitions [OF o cb_witness_run2 C]
  note tD = CircuitBreaker_transitions [OF o cb_witness_run3 D]
  from tA tB tC tD A B C D show ?thesis by blast
qed

section \<open>Properties of Cached and Memoize\<close>

lemma Cached_miss_eq:
  "Cached_miss opts k f args storedAt cache log =
     (f log args,
      (case stores (f log args) of Some v \<Rightarrow> cache_set opts k v storedAt cache | None \<Rightarrow> cache),
      log @ [(args, f log args)])"
proof (cases "f log args")
  case (Promise s)
  then show ?thesis by (cases s) (simp_all add: Cached_miss_def invoke_eq)
qed (simp_all add: Cached_miss_def invoke_eq)

lemma Cached_hit:
  assumes "cache (cacheKey opts stringify cls m args) = Some entry" and "fresh (expiry entry) now"
  shows "Cached opts stringify m f cls args now storedAt cache keys log =
     (Value (cvalue entry), cache, insert (cacheKey opts stringify cls m args) keys, log)"
  using assms by (simp add: Cached_def Let_def)

lemma Cached_expired:
  assumes "cache (cacheKey opts stringify cls m args) = Some entry" and "\<not> fresh (expiry entry) now"
  shows "Cached opts stringify m f cls args now storedAt cache keys log =
     (f log args,
      (case stores (f log args) of
         Some v \<Rightarrow> cache_set opts (cacheKey opts stringify cls m args) v storedAt cache
       | None \<Rightarrow> cache(cacheKey opts stringify cls m args := None)),
      insert (cacheKey opts stringify cls m args) keys, log @ [(args, f log args)])"
  using assms by (simp add: Cached_def Let_def Cached_miss_eq cache_set_def split: option.splits)

lemma Cached_absent:
  assumes "cache (cacheKey opts stringify cls m args) = None"
  shows "Cached opts stringify m f cls args now storedAt cache keys log =
     (f log args,
      (case stores (f log args) of
         Some v \<Rightarrow> cache_set opts (cacheKey opts stringify cls m args) v storedAt cache
       | None \<Rightarrow> cache),
      insert (cacheKey opts stringify cls m args) keys, log @ [(args, f log args)])"
  using assms by (simp add: Cached_def Let_def Cached_miss_eq)

text \<open>
  C4 (as amended): a call whose key has an entry without expiry (none, or 0) or with
  \<open>expiry > now\<close> returns the stored value and does not invoke the method; a call whose
  entry has a nonzero \<open>expiry \<le> now\<close> removes it and invokes the method, and with
  \<open>expiryTime = T\<close>, \<open>T\<close> not 0, a value the method yields is stored with expiry
  \<open>storedAt + T\<close>, where \<open>storedAt\<close> is the clock when the value is stored.  Hence, after a
  first call on a missing key that stored its result at \<open>s0\<close>, a second call at
  \<open>t1 \<ge> s0 + T\<close> invokes the method again, two invocations in all, and a second call at
  \<open>t1 < s0 + T\<close> returns the stored value, one invocation in all.  With \<open>expiryTime\<close> 0 or
  omitted the value is stored without expiry, and a second call at any time returns it,
  one invocation in all.
\<close>

theorem Cached_ttl:
  assumes k: "k = cacheKey opts stringify cls m args"
  shows "(cache k = Some entry
            \<and> (expiry entry = None \<or> expiry entry = Some 0
                \<or> (\<exists>x. expiry entry = Some x \<and> now < x)) \<longrightarrow>
            Cached opts stringify m f cls args now storedAt cache keys log =
              (Value (cvalue entry), cache, insert k keys, log))
       \<and> (cache k = Some entry \<and> expiry entry = Some x \<and> x \<le> now \<and> x \<noteq> 0
            \<and> expiryTime opts = Some T \<and> T \<noteq> 0 \<longrightarrow>
            Cached opts stringify m f cls args now storedAt cache keys log =
              (f log args,
               (case stores (f log args) of
                  Some v \<Rightarrow> cache(k \<mapsto> \<lparr>cvalue = v, expiry = Some (storedAt + T)\<rparr>)
                | None \<Rightarrow> cache(k := None)),
               insert k keys, log @ [(args, f log args)]))
       \<and> (expiryTime opts = Some T \<and> T \<noteq> 0 \<and> s0 + T \<noteq> 0
            \<and> cache k = None \<and> stores (f log args) = Some v
            \<and> Cached opts stringify m f cls args t0 s0 cache keys log = (r1, cache1, keys1, log1)
            \<and> Cached opts stringify m f cls args t1 s1 cache1 keys1 log1 = (r2, cache2, keys2, log2)
          \<longrightarrow> r1 = f log args \<and> log1 = log @ [(args, f log args)]
              \<and> cache1 k = Some \<lparr>cvalue = v, expiry = Some (s0 + T)\<rparr>
              \<and> (s0 + T \<le> t1 \<longrightarrow> r2 = f log1 args \<and> log2 = log1 @ [(args, f log1 args)])
              \<and> (t1 < s0 + T \<longrightarrow> r2 = Value v \<and> log2 = log1))
       \<and> ((expiryTime opts = None \<or> expiryTime opts = Some 0)
            \<and> cache k = None \<and> stores (f log args) = Some v
            \<and> Cached opts stringify m f cls args t0 s0 cache keys log = (r1, cache1, keys1, log1)
            \<and> Cached opts stringify m f cls args t1 s1 cache1 keys1 log1 = (r2, cache2, keys2, log2)
          \<longrightarrow> r1 = f log args \<and> log1 = log @ [(args, f log args)]
              \<and> cache1 k = Some \<lparr>cvalue = v, expiry = None\<rparr>
              \<and> r2 = Value v \<and> log2 = log1)"
proof (intro conjI impI)
  have ne: "newExpiry opts t = Some (t + T)" if "expiryTime opts = Some T" "T \<noteq> 0" for t
    using that by (simp add: newExpiry_def)
  have ne0: "newExpiry opts t = None" if "expiryTime opts = None \<or> expiryTime opts = Some 0" for t
    using that by (auto simp: newExpiry_def)
  {
    assume h: "cache k = Some entry
            \<and> (expiry entry = None \<or> expiry entry = Some 0
                \<or> (\<exists>x. expiry entry = Some x \<and> now < x))"
    then have "fresh (expiry entry) now" by (auto simp: fresh_def)
    with h show "Cached opts stringify m f cls args now storedAt cache keys log =
              (Value (cvalue entry), cache, insert k keys, log)"
      using Cached_hit[of cache opts stringify cls m args entry now f storedAt keys log] k by simp
  }
  {
    assume h: "cache k = Some entry \<and> expiry entry = Some x \<and> x \<le> now \<and> x \<noteq> 0
            \<and> expiryTime opts = Some T \<and> T \<noteq> 0"
    then have "\<not> fresh (expiry entry) now" by (simp add: fresh_def)
    with h show "Cached opts stringify m f cls args now storedAt cache keys log =
              (f log args,
               (case stores (f log args) of
                  Some v \<Rightarrow> cache(k \<mapsto> \<lparr>cvalue = v, expiry = Some (storedAt + T)\<rparr>)
                | None \<Rightarrow> cache(k := None)),
               insert k keys, log @ [(args, f log args)])"
      using Cached_expired[of cache opts stringify cls m args entry now f storedAt keys log] k
      by (simp add: cache_set_def ne split: option.splits)
  }
  {
    assume h: "expiryTime opts = Some T \<and> T \<noteq> 0 \<and> s0 + T \<noteq> 0
            \<and> cache k = None \<and> stores (f log args) = Some v
            \<and> Cached opts stringify m f cls args t0 s0 cache keys log = (r1, cache1, keys1, log1)
            \<and> Cached opts stringify m f cls args t1 s1 cache1 keys1 log1 = (r2, cache2, keys2, log2)"
    then have first: "r1 = f log args" "log1 = log @ [(args, f log args)]"
      "cache1 = cache(k \<mapsto> \<lparr>cvalue = v, expiry = Some (s0 + T)\<rparr>)"
      using Cached_absent[of cache opts stringify cls m args f t0 s0 keys log] k
      by (simp_all add: cache_set_def ne)
    show "r1 = f log args" "log1 = log @ [(args, f log args)]" using first by simp_all
    show "cache1 k = Some \<lparr>cvalue = v, expiry = Some (s0 + T)\<rparr>" using first(3) by simp
    define entry1 where "entry1 = \<lparr>cvalue = v, expiry = Some (s0 + T)\<rparr>"
    have c1: "cache1 (cacheKey opts stringify cls m args) = Some entry1"
      using first(3) k by (simp add: entry1_def)
    {
      assume late: "s0 + T \<le> t1"
      have nf: "\<not> fresh (expiry entry1) t1" using late h by (simp add: fresh_def entry1_def)
      from Cached_expired[of cache1 opts stringify cls m args entry1 t1 f s1 keys1 log1] c1 nf h
      show "r2 = f log1 args" "log2 = log1 @ [(args, f log1 args)]" by simp_all
    }
    {
      assume early: "t1 < s0 + T"
      have fr: "fresh (expiry entry1) t1" using early by (simp add: fresh_def entry1_def)
      from Cached_hit[of cache1 opts stringify cls m args entry1 t1 f s1 keys1 log1] c1 fr h
      show "r2 = Value v" "log2 = log1" by (simp_all add: entry1_def)
    }
  }
  {
    assume h: "(expiryTime opts = None \<or> expiryTime opts = Some 0)
            \<and> cache k = None \<and> stores (f log args) = Some v
            \<and> Cached opts stringify m f cls args t0 s0 cache keys log = (r1, cache1, keys1, log1)
            \<and> Cached opts stringify m f cls args t1 s1 cache1 keys1 log1 = (r2, cache2, keys2, log2)"
    then have e0: "expiryTime opts = None \<or> expiryTime opts = Some 0" by blast
    from h have first: "r1 = f log args" "log1 = log @ [(args, f log args)]"
      "cache1 = cache(k \<mapsto> \<lparr>cvalue = v, expiry = None\<rparr>)"
      using Cached_absent[of cache opts stringify cls m args f t0 s0 keys log] k
      by (simp_all add: cache_set_def ne0[OF e0])
    show "r1 = f log args" "log1 = log @ [(args, f log args)]" using first by simp_all
    show "cache1 k = Some \<lparr>cvalue = v, expiry = None\<rparr>" using first(3) by simp
    define entry1 where "entry1 = \<lparr>cvalue = v, expiry = (None :: int option)\<rparr>"
    have c1: "cache1 (cacheKey opts stringify cls m args) = Some entry1"
      using first(3) k by (simp add: entry1_def)
    have fr: "fresh (expiry entry1) t1" by (simp add: fresh_def entry1_def)
    from Cached_hit[of cache1 opts stringify cls m args entry1 t1 f s1 keys1 log1] c1 fr h
    show "r2 = Value v" "log2 = log1" by (simp_all add: entry1_def)
  }
qed

lemmas cache_eval = Cached_def Cached_miss_def cacheKey_def fresh_def newExpiry_def cache_set_def
  invoke_def Let_def expiring100_def expiring0_def no_options_def counter_def throwing_def
  json_unit_def Memoize_def

text \<open>
  A first call at 1000 that stores its value at 1040, with \<open>expiryTime\<close> 100: a second call
  at 1120 is a hit and a second call at 1140 invokes the method again.  With \<open>expiryTime\<close>
  0 a second call at 5000 is a hit.
\<close>

theorem Cached_ttl_witness:
  "Cached expiring100 json_unit ''m'' counter ''C'' () 1000 1040 Map.empty {} [] =
     (Value 0, [''C:m:[]'' \<mapsto> \<lparr>cvalue = 0, expiry = Some 1140\<rparr>], {''C:m:[]''}, [((), Value 0)])
   \<and> Cached expiring100 json_unit ''m'' counter ''C'' () 1120 1120
       [''C:m:[]'' \<mapsto> \<lparr>cvalue = 0, expiry = Some 1140\<rparr>] {''C:m:[]''} [((), Value 0)] =
     (Value 0, [''C:m:[]'' \<mapsto> \<lparr>cvalue = 0, expiry = Some 1140\<rparr>], {''C:m:[]''}, [((), Value 0)])
   \<and> Cached expiring100 json_unit ''m'' counter ''C'' () 1140 1150
       [''C:m:[]'' \<mapsto> \<lparr>cvalue = 0, expiry = Some 1140\<rparr>] {''C:m:[]''} [((), Value 0)] =
     (Value 1, [''C:m:[]'' \<mapsto> \<lparr>cvalue = 1, expiry = Some 1250\<rparr>], {''C:m:[]''},
      [((), Value 0), ((), Value 1)])
   \<and> fst (Cached expiring100 json_unit ''m'' counter ''C'' () 1120 1120
       [''C:m:[]'' \<mapsto> \<lparr>cvalue = 0, expiry = Some 1140\<rparr>] {''C:m:[]''} [((), Value 0)]) = Value 0
   \<and> snd (snd (snd (Cached expiring100 json_unit ''m'' counter ''C'' () 1140 1150
       [''C:m:[]'' \<mapsto> \<lparr>cvalue = 0, expiry = Some 1140\<rparr>] {''C:m:[]''} [((), Value 0)])))
       = [((), Value 0), ((), Value 1)]
   \<and> Cached expiring0 json_unit ''m'' counter ''C'' () 1000 1040 Map.empty {} [] =
     (Value 0, [''C:m:[]'' \<mapsto> \<lparr>cvalue = 0, expiry = None\<rparr>], {''C:m:[]''}, [((), Value 0)])
   \<and> fst (Cached expiring0 json_unit ''m'' counter ''C'' () 5000 5000
       [''C:m:[]'' \<mapsto> \<lparr>cvalue = 0, expiry = None\<rparr>] {''C:m:[]''} [((), Value 0)]) = Value 0
   \<and> snd (snd (snd (Cached expiring0 json_unit ''m'' counter ''C'' () 5000 5000
       [''C:m:[]'' \<mapsto> \<lparr>cvalue = 0, expiry = None\<rparr>] {''C:m:[]''} [((), Value 0)])))
       = [((), Value 0)]"
proof -
  have k: "''C:m:[]'' = cacheKey expiring100 json_unit ''C'' ''m'' ()"
    and k0: "''C:m:[]'' = cacheKey expiring0 json_unit ''C'' ''m'' ()"
    by (simp_all add: cacheKey_def expiring100_def expiring0_def json_unit_def)
  define cache1 :: "nat cache" where "cache1 = [''C:m:[]'' \<mapsto> \<lparr>cvalue = 0, expiry = Some 1140\<rparr>]"
  define cache0 :: "nat cache" where "cache0 = [''C:m:[]'' \<mapsto> \<lparr>cvalue = 0, expiry = None\<rparr>]"
  define R where "R = Cached expiring0 json_unit ''m'' counter ''C'' () 5000 5000
       cache0 {''C:m:[]''} [((), Value 0)]"
  have A: "Cached expiring100 json_unit ''m'' counter ''C'' () 1000 1040 Map.empty {} [] =
     (Value 0, cache1, {''C:m:[]''}, [((), Value 0)])"
    by (simp add: cache_eval cache1_def)
  have A0: "Cached expiring0 json_unit ''m'' counter ''C'' () 1000 1040 Map.empty {} [] =
     (Value 0, cache0, {''C:m:[]''}, [((), Value 0)])"
    by (simp add: cache_eval cache0_def)
  have e: "expiryTime (expiring100 :: unit cache_options) = Some 100"
    and e0: "expiryTime (expiring0 :: unit cache_options) = None
             \<or> expiryTime (expiring0 :: unit cache_options) = Some 0"
    by (simp_all add: expiring100_def expiring0_def)
  have n: "(100::int) \<noteq> 0" "(1140::int) \<noteq> 0" "(1140::int) \<le> 1140" "(1120::int) < 1140"
    by simp_all
  have c1: "cache1 ''C:m:[]'' = Some \<lparr>cvalue = 0, expiry = Some 1140\<rparr>"
    by (simp add: cache1_def)
  have x: "expiry \<lparr>cvalue = 0::nat, expiry = Some 1140\<rparr> = Some 1140" by simp
  have st: "stores (counter [] ()) = Some 0" by (simp add: counter_def)
  have emp: "(Map.empty :: nat cache) ''C:m:[]'' = None" by simp
  have Rc: "R = (fst R, fst (snd R), fst (snd (snd R)), snd (snd (snd R)))" by simp
  from Cached_ttl [OF k, where cache = cache1 and keys = "{''C:m:[]''}" and now = 1120
      and storedAt = 1120 and f = counter and log = "[((), Value 0)]"
      and entry = "\<lparr>cvalue = 0, expiry = Some 1140\<rparr>"] c1 x n
  have B: "Cached expiring100 json_unit ''m'' counter ''C'' () 1120 1120
       cache1 {''C:m:[]''} [((), Value 0)] =
     (Value 0, cache1, {''C:m:[]''}, [((), Value 0)])"
    by auto
  from Cached_ttl [OF k, where cache = cache1 and keys = "{''C:m:[]''}" and now = 1140
      and storedAt = 1150 and f = counter and log = "[((), Value 0)]" and x = 1140 and T = 100
      and entry = "\<lparr>cvalue = 0, expiry = Some 1140\<rparr>"] c1 x n e
  have C: "Cached expiring100 json_unit ''m'' counter ''C'' () 1140 1150
       cache1 {''C:m:[]''} [((), Value 0)] =
     (Value 1, [''C:m:[]'' \<mapsto> \<lparr>cvalue = 1, expiry = Some 1250\<rparr>], {''C:m:[]''},
      [((), Value 0), ((), Value 1)])"
    by (auto simp: counter_def cache1_def)
  from Cached_ttl [OF k0, where f = counter and cache = Map.empty and log = "[]"
      and keys = "{}" and v = 0 and ?s0.0 = 1040 and ?t0.0 = 1000 and ?t1.0 = 5000 and ?s1.0 = 5000
      and ?r1.0 = "Value 0" and ?cache1.0 = cache0 and ?keys1.0 = "{''C:m:[]''}"
      and ?log1.0 = "[((), Value 0)]" and ?r2.0 = "fst R" and ?cache2.0 = "fst (snd R)"
      and ?keys2.0 = "fst (snd (snd R))" and ?log2.0 = "snd (snd (snd R))"]
    e0 emp st A0 Rc
  have D: "fst R = Value 0 \<and> snd (snd (snd R)) = [((), Value 0)]"
    unfolding R_def by blast
  define R1 where "R1 = Cached expiring100 json_unit ''m'' counter ''C'' () 1120 1120
       cache1 {''C:m:[]''} [((), Value 0)]"
  define R2 where "R2 = Cached expiring100 json_unit ''m'' counter ''C'' () 1140 1150
       cache1 {''C:m:[]''} [((), Value 0)]"
  have Rc1: "R1 = (fst R1, fst (snd R1), fst (snd (snd R1)), snd (snd (snd R1)))"
    and Rc2: "R2 = (fst R2, fst (snd R2), fst (snd (snd R2)), snd (snd (snd R2)))"
    by simp_all
  have m: "(1040::int) + 100 \<noteq> 0" "(1120::int) < 1040 + 100" "(1040::int) + 100 \<le> 1140"
    by simp_all
  from Cached_ttl [OF k, where f = counter and cache = Map.empty and log = "[]"
      and keys = "{}" and v = 0 and T = 100 and ?s0.0 = 1040 and ?t0.0 = 1000
      and ?t1.0 = 1120 and ?s1.0 = 1120
      and ?r1.0 = "Value 0" and ?cache1.0 = cache1 and ?keys1.0 = "{''C:m:[]''}"
      and ?log1.0 = "[((), Value 0)]" and ?r2.0 = "fst R1" and ?cache2.0 = "fst (snd R1)"
      and ?keys2.0 = "fst (snd (snd R1))" and ?log2.0 = "snd (snd (snd R1))"]
    e n(1) m emp st A Rc1
  have E1: "fst R1 = Value 0 \<and> snd (snd (snd R1)) = [((), Value 0)]"
    unfolding R1_def by blast
  from Cached_ttl [OF k, where f = counter and cache = Map.empty and log = "[]"
      and keys = "{}" and v = 0 and T = 100 and ?s0.0 = 1040 and ?t0.0 = 1000
      and ?t1.0 = 1140 and ?s1.0 = 1150
      and ?r1.0 = "Value 0" and ?cache1.0 = cache1 and ?keys1.0 = "{''C:m:[]''}"
      and ?log1.0 = "[((), Value 0)]" and ?r2.0 = "fst R2" and ?cache2.0 = "fst (snd R2)"
      and ?keys2.0 = "fst (snd (snd R2))" and ?log2.0 = "snd (snd (snd R2))"]
    e n(1) m emp st A Rc2
  have E2: "fst R2 = counter [((), Value 0)] ()
      \<and> snd (snd (snd R2)) = [((), Value 0)] @ [((), counter [((), Value 0)] ())]"
    unfolding R2_def by blast
  from E2 have E2': "fst R2 = Value 1 \<and> snd (snd (snd R2)) = [((), Value 0), ((), Value 1)]"
    by (simp add: counter_def)
  from A A0 B C D E1 E2' show ?thesis unfolding cache1_def cache0_def R_def R1_def R2_def by blast
qed

text \<open>
  C4 as stated fails in two ways.  The time to live counts from the moment the value is
  stored, not from the time of the call: with \<open>expiryTime\<close> 100, a first call at 1000 whose
  value is stored at 1040 and a second call at 1120, later than \<open>1000 + 100\<close>, invoke the
  method once in all.  And \<open>expiryTime\<close> 0 stores the value without expiry: calls at 1000
  and at 5000 invoke the method once in all.
\<close>

theorem Cached_ttl_counts_from_storing:
  "cached_run expiring100 json_unit ''m'' counter
       [(''C'', (), 1000, 1040), (''C'', (), 1120, 1120)] Map.empty {} [] =
     ([Value 0, Value 0], [''C:m:[]'' \<mapsto> \<lparr>cvalue = 0, expiry = Some 1140\<rparr>], {''C:m:[]''},
      [((), Value 0)])
   \<and> (1000::int) + 100 < 1120
   \<and> cached_run expiring0 json_unit ''m'' counter
       [(''C'', (), 1000, 1000), (''C'', (), 5000, 5000)] Map.empty {} [] =
     ([Value 0, Value 0], [''C:m:[]'' \<mapsto> \<lparr>cvalue = 0, expiry = None\<rparr>], {''C:m:[]''},
      [((), Value 0)])"
  by (simp add: cache_eval)

lemma Memoize_hit:
  "memoized (m @ '':'' @ stringify args) = Some v \<Longrightarrow>
     Memoize stringify m f cls args memoized log = (Value v, memoized, log)"
  by (simp add: Memoize_def Let_def)

lemma Memoize_miss:
  assumes "memoized (m @ '':'' @ stringify args) = None"
  shows "Memoize stringify m f cls args memoized log =
     (f log args,
      (case stores (f log args) of
         Some v \<Rightarrow> memoized(m @ '':'' @ stringify args \<mapsto> v) | None \<Rightarrow> memoized),
      log @ [(args, f log args)])"
proof (cases "f log args")
  case (Promise s)
  then show ?thesis using assms by (cases s) (simp_all add: Memoize_def invoke_eq)
qed (use assms in \<open>simp_all add: Memoize_def invoke_eq\<close>)

text \<open>
  C10: when the method throws synchronously on a miss (no entry, or an expired one), the
  caller gets that exception, the key has no entry afterwards, every other key is as
  before, and the next call with the same key invokes the method again.  The same holds
  for \<^verbatim>\<open>Memoize\<close>, whose map is left untouched.
\<close>

theorem cache_throw_leaves_no_entry:
  assumes thrown: "f log args = Thrown e"
    and k: "k = cacheKey opts stringify cls m args"
    and mk: "mk = m @ '':'' @ stringify args"
  shows "((cache k = None \<or> (\<exists>entry. cache k = Some entry \<and> \<not> fresh (expiry entry) now))
          \<and> Cached opts stringify m f cls args now storedAt cache keys log = (r, cache', keys', log')
          \<longrightarrow> r = Thrown e \<and> cache' k = None \<and> (\<forall>k'. k' \<noteq> k \<longrightarrow> cache' k' = cache k')
              \<and> log' = log @ [(args, Thrown e)]
              \<and> Cached opts stringify m f cls args now2 storedAt2 cache' keys' log' =
                  (f log' args,
                   (case stores (f log' args) of
                      Some v \<Rightarrow> cache_set opts k v storedAt2 cache' | None \<Rightarrow> cache'),
                   keys', log' @ [(args, f log' args)]))
       \<and> (memoized mk = None
          \<and> Memoize stringify m f cls args memoized log = (mr, memoized', mlog')
          \<longrightarrow> mr = Thrown e \<and> memoized' = memoized \<and> mlog' = log @ [(args, Thrown e)]
              \<and> Memoize stringify m f cls2 args memoized' mlog' =
                  (f mlog' args,
                   (case stores (f mlog' args) of
                      Some v \<Rightarrow> memoized'(mk \<mapsto> v) | None \<Rightarrow> memoized'),
                   mlog' @ [(args, f mlog' args)]))"
proof (intro conjI impI)
  assume h: "(cache k = None \<or> (\<exists>entry. cache k = Some entry \<and> \<not> fresh (expiry entry) now))
          \<and> Cached opts stringify m f cls args now storedAt cache keys log = (r, cache', keys', log')"
  have res: "r = Thrown e \<and> cache' = cache(k := None) \<and> keys' = insert k keys
      \<and> log' = log @ [(args, Thrown e)]"
  proof (cases "cache k")
    case None
    then have "cache(k := None) = cache" by auto
    with Cached_absent[of cache opts stringify cls m args f now storedAt keys log] h None k thrown
    show ?thesis by simp
  next
    case (Some entry)
    with h have "\<not> fresh (expiry entry) now" by auto
    with Cached_expired[of cache opts stringify cls m args entry now f storedAt keys log] h Some k thrown
    show ?thesis by simp
  qed
  then show "r = Thrown e" "cache' k = None" "\<forall>k'. k' \<noteq> k \<longrightarrow> cache' k' = cache k'"
    "log' = log @ [(args, Thrown e)]" by simp_all
  have none': "cache' (cacheKey opts stringify cls m args) = None" using res k by simp
  have ins: "insert (cacheKey opts stringify cls m args) keys' = keys'" using res k by auto
  show "Cached opts stringify m f cls args now2 storedAt2 cache' keys' log' =
                  (f log' args,
                   (case stores (f log' args) of
                      Some v \<Rightarrow> cache_set opts k v storedAt2 cache' | None \<Rightarrow> cache'),
                   keys', log' @ [(args, f log' args)])"
    unfolding k
    using Cached_absent[of cache' opts stringify cls m args f now2 storedAt2 keys' log'] none' ins
    by simp
next
  assume h: "memoized mk = None
          \<and> Memoize stringify m f cls args memoized log = (mr, memoized', mlog')"
  then have none: "memoized (m @ '':'' @ stringify args) = None" using mk by simp
  from Memoize_miss[of memoized m stringify args f cls log] none h thrown
  have res: "mr = Thrown e" "memoized' = memoized" "mlog' = log @ [(args, Thrown e)]"
    by simp_all
  then show "mr = Thrown e" "memoized' = memoized" "mlog' = log @ [(args, Thrown e)]" .
  have "memoized' (m @ '':'' @ stringify args) = None" using none res by simp
  then show "Memoize stringify m f cls2 args memoized' mlog' =
                  (f mlog' args,
                   (case stores (f mlog' args) of
                      Some v \<Rightarrow> memoized'(mk \<mapsto> v) | None \<Rightarrow> memoized'),
                   mlog' @ [(args, f mlog' args)])"
    unfolding mk by (rule Memoize_miss)
qed

theorem cache_throw_leaves_no_entry_witness:
  "Cached expiring100 json_unit ''m'' throwing ''C'' () 1150 1150
       [''C:m:[]'' \<mapsto> \<lparr>cvalue = 0, expiry = Some 1100\<rparr>] {''C:m:[]''} [] =
     (Thrown (OpError ()), Map.empty, {''C:m:[]''}, [((), Thrown (OpError ()))])
   \<and> Cached expiring100 json_unit ''m'' throwing ''C'' () 1160 1160
       Map.empty {''C:m:[]''} [((), Thrown (OpError ()))] =
     (Thrown (OpError ()), Map.empty, {''C:m:[]''},
      [((), Thrown (OpError ())), ((), Thrown (OpError ()))])
   \<and> Memoize json_unit ''m'' throwing ''C'' () Map.empty [] =
     (Thrown (OpError ()), Map.empty, [((), Thrown (OpError ()))])
   \<and> Memoize json_unit ''m'' throwing ''C'' () Map.empty [((), Thrown (OpError ()))] =
     (Thrown (OpError ()), Map.empty, [((), Thrown (OpError ())), ((), Thrown (OpError ()))])"
proof -
  have t: "throwing [] () = Thrown (OpError ())" by (simp add: throwing_def)
  have k: "''C:m:[]'' = cacheKey expiring100 json_unit ''C'' ''m'' ()"
    by (simp add: cacheKey_def expiring100_def json_unit_def)
  have mk: "''m:[]'' = ''m'' @ '':'' @ json_unit ()" by (simp add: json_unit_def)
  have A: "Cached expiring100 json_unit ''m'' throwing ''C'' () 1150 1150
       [''C:m:[]'' \<mapsto> \<lparr>cvalue = 0::nat, expiry = Some 1100\<rparr>] {''C:m:[]''} [] =
     (Thrown (OpError ()), Map.empty, {''C:m:[]''}, [((), Thrown (OpError ()))])"
    by (simp add: cache_eval)
  have B: "Memoize json_unit ''m'' throwing ''C'' () Map.empty [] =
     (Thrown (OpError ()), Map.empty, [((), Thrown (OpError ()))])"
    by (simp add: cache_eval)
  have ex: "\<exists>entry. [''C:m:[]'' \<mapsto> \<lparr>cvalue = 0::nat, expiry = Some 1100\<rparr>] ''C:m:[]'' = Some entry
       \<and> \<not> fresh (expiry entry) 1150"
    by (simp add: fresh_def)
  note w = cache_throw_leaves_no_entry [where f = throwing and log = "[]" and args = "()"
      and e = "OpError ()" and opts = expiring100 and stringify = json_unit and m = "''m''"
      and k = "''C:m:[]''" and mk = "''m:[]''" and cache = "[''C:m:[]'' \<mapsto> \<lparr>cvalue = 0::nat, expiry = Some 1100\<rparr>]" and now = 1150
      and storedAt = 1150 and keys = "{''C:m:[]''}" and r = "Thrown (OpError ())"
      and cache' = Map.empty and keys' = "{''C:m:[]''}" and log' = "[((), Thrown (OpError ()))]"
      and ?now2.0 = 1160 and ?storedAt2.0 = 1160 and memoized = Map.empty and cls = "''C''"
      and mr = "Thrown (OpError ())" and memoized' = Map.empty
      and mlog' = "[((), Thrown (OpError ()))]" and ?cls2.0 = "''C''", OF t k mk]
  from w A B ex show ?thesis by (simp add: throwing_def)
qed

lemma same_entries_step:
  assumes opts: "expiryTime opts = None" "key opts = None"
    and sim: "same_entries cls m cache memoized"
    and c: "Cached opts stringify m f cls args now storedAt cache keys log = (r, cache', keys', log')"
    and mm: "Memoize stringify m f cls args memoized log = (mr, memoized', mlog')"
  shows "r = mr \<and> log' = mlog' \<and> same_entries cls m cache' memoized'"
proof -
  define s where "s = stringify args"
  have k: "cacheKey opts stringify cls m args = cls @ '':'' @ m @ '':'' @ s"
    using opts(2) by (simp add: cacheKey_def s_def)
  have ne: "newExpiry opts t = None" for t using opts(1) by (simp add: newExpiry_def)
  have look: "cache (cls @ '':'' @ m @ '':'' @ s) =
      map_option (\<lambda>v. \<lparr>cvalue = v, expiry = None\<rparr>) (memoized (m @ '':'' @ s))"
    using sim by (simp add: same_entries_def)
  show ?thesis
  proof (cases "memoized (m @ '':'' @ s)")
    case (Some v)
    then have ce: "cache (cacheKey opts stringify cls m args) = Some \<lparr>cvalue = v, expiry = None\<rparr>"
      using look k by simp
    have "fresh (expiry \<lparr>cvalue = v, expiry = None\<rparr>) now" by (simp add: fresh_def)
    with Cached_hit[of cache opts stringify cls m args "\<lparr>cvalue = v, expiry = None\<rparr>" now f storedAt keys log]
      ce c
    have "r = Value v" "cache' = cache" "log' = log" by simp_all
    moreover from Memoize_hit[of memoized m stringify args v f cls log] Some mm
    have "mr = Value v" "memoized' = memoized" "mlog' = log" by (simp_all add: s_def)
    ultimately show ?thesis using sim by simp
  next
    case None
    then have ce: "cache (cacheKey opts stringify cls m args) = None" using look k by simp
    from Cached_absent[of cache opts stringify cls m args f now storedAt keys log] ce c
    have cres: "r = f log args" "log' = log @ [(args, f log args)]"
      "cache' = (case stores (f log args) of
         Some v \<Rightarrow> cache(cls @ '':'' @ m @ '':'' @ s \<mapsto> \<lparr>cvalue = v, expiry = None\<rparr>)
       | None \<Rightarrow> cache)"
      by (simp_all add: cache_set_def ne k split: option.splits)
    from Memoize_miss[of memoized m stringify args f cls log] None mm
    have mres: "mr = f log args" "mlog' = log @ [(args, f log args)]"
      "memoized' = (case stores (f log args) of
         Some v \<Rightarrow> memoized(m @ '':'' @ s \<mapsto> v) | None \<Rightarrow> memoized)"
      by (simp_all add: s_def split: option.splits)
    have "same_entries cls m cache' memoized'"
    proof (cases "stores (f log args)")
      case None
      then show ?thesis using cres(3) mres(3) sim by simp
    next
      case (Some v)
      then show ?thesis using cres(3) mres(3) sim
        by (auto simp: same_entries_def)
    qed
    then show ?thesis using cres mres by simp
  qed
qed

lemma same_entries_run:
  assumes opts: "expiryTime opts = None" "key opts = None"
    and cls: "\<forall>c \<in> set calls. fst c = cls"
    and sim: "same_entries cls m cache memoized"
    and c: "cached_run opts stringify m f calls cache keys log = (rs, cache', keys', log')"
    and mm: "memo_run stringify m f calls memoized log = (mrs, memoized', mlog')"
  shows "rs = mrs \<and> log' = mlog' \<and> same_entries cls m cache' memoized'"
  using cls sim c mm
proof (induction calls arbitrary: cache keys log memoized rs mrs)
  case Nil
  then show ?case by simp
next
  case (Cons x calls)
  obtain args now storedAt where x: "x = (cls, args, now, storedAt)"
    using Cons.prems(1) by (cases x) auto
  obtain r cache1 keys1 log1 where
    c1: "Cached opts stringify m f cls args now storedAt cache keys log = (r, cache1, keys1, log1)"
    by (metis prod_cases4)
  obtain mr memoized1 mlog1 where
    m1: "Memoize stringify m f cls args memoized log = (mr, memoized1, mlog1)"
    by (metis prod_cases3)
  from same_entries_step[OF opts Cons.prems(2) c1 m1]
  have step: "r = mr" "log1 = mlog1" "same_entries cls m cache1 memoized1" by simp_all
  obtain rs1 where cr: "cached_run opts stringify m f calls cache1 keys1 log1 = (rs1, cache', keys', log')"
    and rs: "rs = r # rs1"
    using Cons.prems(3) by (auto simp: x c1 split: prod.splits)
  obtain mrs1 where mr: "memo_run stringify m f calls memoized1 log1 = (mrs1, memoized', mlog')"
    and mrs: "mrs = mr # mrs1"
    using Cons.prems(4) by (auto simp: x m1 step(2) split: prod.splits)
  have "\<forall>c \<in> set calls. fst c = cls" using Cons.prems(1) by simp
  from Cons.IH[OF this step(3) cr mr] show ?case using rs mrs step(1) by simp
qed

text \<open>
  C6 (as amended): for every method and every sequence of awaited calls made through
  instances of one class, starting from empty caches, \<^verbatim>\<open>Memoize\<close> and \<^verbatim>\<open>Cached\<close> with no
  expiry and the default key return the same results and invoke the method on the same
  calls.
\<close>

theorem Memoize_is_Cached_within_one_class:
  assumes "expiryTime opts = None" and "key opts = None"
    and "\<forall>c \<in> set calls. fst c = cls"
    and "cached_run opts stringify m f calls Map.empty keys log = (rs, cache', keys', log')"
    and "memo_run stringify m f calls Map.empty log = (mrs, memoized', mlog')"
  shows "rs = mrs \<and> log' = mlog'"
proof -
  have "same_entries cls m Map.empty Map.empty" by (simp add: same_entries_def)
  from same_entries_run[OF assms(1,2,3) this assms(4,5)] show ?thesis by simp
qed

theorem Memoize_is_Cached_within_one_class_witness:
  "cached_run no_options json_unit ''m'' counter [(''A'', (), 1, 1), (''A'', (), 2, 2)] Map.empty {} [] =
     ([Value 0, Value 0], [''A:m:[]'' \<mapsto> \<lparr>cvalue = 0, expiry = None\<rparr>], {''A:m:[]''}, [((), Value 0)])
   \<and> memo_run json_unit ''m'' counter [(''A'', (), 1, 1), (''A'', (), 2, 2)] Map.empty [] =
     ([Value 0, Value 0], [''m:[]'' \<mapsto> 0], [((), Value 0)])"
proof -
  have o: "expiryTime (no_options :: unit cache_options) = None" "key (no_options :: unit cache_options) = None"
    by (simp_all add: no_options_def)
  have cls: "\<forall>c \<in> set [(''A'', (), 1::int, 1::int), (''A'', (), 2, 2)]. fst c = ''A''" by simp
  have A: "cached_run no_options json_unit ''m'' counter [(''A'', (), 1, 1), (''A'', (), 2, 2)] Map.empty {} [] =
     ([Value 0, Value 0], [''A:m:[]'' \<mapsto> \<lparr>cvalue = 0, expiry = None\<rparr>], {''A:m:[]''}, [((), Value 0)])"
    by (simp add: cache_eval)
  have B: "memo_run json_unit ''m'' counter [(''A'', (), 1, 1), (''A'', (), 2, 2)] Map.empty [] =
     ([Value 0, Value 0], [''m:[]'' \<mapsto> 0], [((), Value 0)])"
    by (simp add: cache_eval)
  from Memoize_is_Cached_within_one_class [OF o cls A B] A B show ?thesis by simp
qed

text \<open>
  C6 as stated fails across classes: \<^verbatim>\<open>Cached\<close> puts the class name of the receiver into
  the key, \<^verbatim>\<open>Memoize\<close> does not.  The same method called through an \<open>A\<close> and then through a
  \<open>B\<close> runs twice under \<^verbatim>\<open>Cached\<close> and once under \<^verbatim>\<open>Memoize\<close>.
\<close>

theorem Memoize_differs_from_Cached_across_classes:
  "cached_run no_options json_unit ''m'' counter [(''A'', (), 1, 1), (''B'', (), 2, 2)] Map.empty {} [] =
     ([Value 0, Value 1],
      [''A:m:[]'' \<mapsto> \<lparr>cvalue = 0, expiry = None\<rparr>, ''B:m:[]'' \<mapsto> \<lparr>cvalue = 1, expiry = None\<rparr>],
      {''A:m:[]'', ''B:m:[]''}, [((), Value 0), ((), Value 1)])
   \<and> memo_run json_unit ''m'' counter [(''A'', (), 1, 1), (''B'', (), 2, 2)] Map.empty [] =
     ([Value 0, Value 0], [''m:[]'' \<mapsto> 0], [((), Value 0)])"
  by (simp add: cache_eval insert_commute)

section \<open>Properties of the debounce decorators\<close>












lemmas debounce_eval = Debounce_def debounce_key_def clearTimeout_def tick_def due_timers_def
  timer_delay_def
  fire_def settles_def invoke_def Let_def debounce0_def echo_def


text \<open>
  With a configured delay beyond the range of the timers every timer runs for 1, so calls
  that are 10 apart, each followed by the passing of time, are not a burst: each of them
  is invoked.
\<close>

lemma debounce_beyond_timer_range_runs_every_call:
  "snd (debounce_run Sync 2147483648 ''m'' echo
       [Call ''C'' 1 0, Tick 5, Call ''C'' 2 10, Tick 15, Call ''C'' 3 20, Tick 25]
       (debounce0, [])) =
     [(1, Promise (Resolved 1)), (2, Promise (Resolved 2)), (3, Promise (Resolved 3))]"
  by (simp add: debounce_eval)


section \<open>The sync/async contract of the wrappers\<close>

lemma Retry_pending: "is_pending (fst (Retry opts f args log))"
  by (simp add: Retry_def split: prod.splits)

lemma Timeout_pending:
  "\<not> is_thrown (f log args) \<Longrightarrow> is_pending (fst (Timeout ms m f args settledAfter log))"
  by (cases "f log args") (simp_all add: Timeout_def invoke_eq)

lemma CircuitBreaker_pending: "is_pending (fst (CircuitBreaker opts f args now failedAt c log))"
  by (simp add: CircuitBreaker_def invoke_eq split: option.splits settlement.splits)

lemma Debounce_pending:
  "fst (Debounce delay m cls args now st) = length (promises st)
   \<and> promises (snd (Debounce delay m cls args now st)) ! length (promises st) = Unsettled"
  by (simp add: Debounce_def Let_def)

lemma RateLimited_passes:
  "int (length (requestTimestamps opts st (rl_key cls m) now)) < limit opts \<Longrightarrow>
     fst (RateLimited opts m f cls args now st log) = f log args"
  by (simp add: RateLimited_admitted)

lemma Cached_contract:
  "(cache (cacheKey opts stringify cls m args) = Some entry \<and> fresh (expiry entry) now \<longrightarrow>
      is_immediate (fst (Cached opts stringify m f cls args now storedAt cache keys log)))
   \<and> (cache (cacheKey opts stringify cls m args) = None
        \<or> (cache (cacheKey opts stringify cls m args) = Some entry \<and> \<not> fresh (expiry entry) now) \<longrightarrow>
      fst (Cached opts stringify m f cls args now storedAt cache keys log) = f log args)"
  using Cached_hit[of cache opts stringify cls m args entry now f storedAt keys log]
    Cached_absent[of cache opts stringify cls m args f now storedAt keys log]
    Cached_expired[of cache opts stringify cls m args entry now f storedAt keys log]
  by auto

lemma Memoize_contract:
  "(memoized (m @ '':'' @ stringify args) = Some v \<longrightarrow>
      is_immediate (fst (Memoize stringify m f cls args memoized log)))
   \<and> (memoized (m @ '':'' @ stringify args) = None \<longrightarrow>
      fst (Memoize stringify m f cls args memoized log) = f log args)"
  using Memoize_hit[of memoized m stringify args v f cls log]
    Memoize_miss[of memoized m stringify args f cls log]
  by auto

lemma Fallback_contract:
  "(is_immediate (f log args) \<longrightarrow> fst (Fallback fallbackFn f args log) = f log args)
   \<and> (is_pending (f log args) \<longrightarrow> is_pending (fst (Fallback fallbackFn f args log)))"
proof (cases "f log args")
  case (Promise s)
  then show ?thesis by (cases s) (simp_all add: Fallback_def invoke_eq)
qed (simp_all add: Fallback_def invoke_eq)

lemma ThrottleSync_contract:
  "(interval \<le> now - lastCall lastCallMap (cls @ ''.'' @ m) \<longrightarrow>
      fst (ThrottleSync interval m f cls args now lastCallMap log) = f log args)
   \<and> (now - lastCall lastCallMap (cls @ ''.'' @ m) < interval \<longrightarrow>
      fst (ThrottleSync interval m f cls args now lastCallMap log) = Value None)"
  by (simp add: ThrottleSync_def Let_def invoke_eq)

lemma ThrottleAsync_contract:
  "(interval \<le> now - lastCall lastCallMap (cls @ ''.'' @ m) \<longrightarrow>
      fst (ThrottleAsync interval truthy m f cls args now lastCallMap lastResultMap log) = f log args)
   \<and> (now - lastCall lastCallMap (cls @ ''.'' @ m) < interval
        \<and> (lastResultMap (cls @ ''.'' @ m) = None
            \<or> (\<exists>s. lastResultMap (cls @ ''.'' @ m) = Some (Promise s))) \<longrightarrow>
      is_pending (fst (ThrottleAsync interval truthy m f cls args now lastCallMap lastResultMap log)))"
  by (cases "f log args") (auto simp: ThrottleAsync_def Let_def invoke_eq lastResultOr_def)

lemma EffectBefore_contract:
  "(is_immediate (fn \<lparr>functionName = m, className = classNameOf cls, ctx_args = args,
                      ctx_result = None, ctx_error = None\<rparr>) \<longrightarrow>
      fst (EffectBefore fn m f cls args log) = f log args)
   \<and> (is_pending (fn \<lparr>functionName = m, className = classNameOf cls, ctx_args = args,
                      ctx_result = None, ctx_error = None\<rparr>) \<and> \<not> is_thrown (f log args) \<longrightarrow>
      is_pending (fst (EffectBefore fn m f cls args log)))"
  by (cases "fn \<lparr>functionName = m, className = classNameOf cls, ctx_args = args,
                      ctx_result = None, ctx_error = None\<rparr>"; cases "f log args")
    (simp_all add: EffectBefore_def Let_def invoke_eq)

lemma EffectAfter_contract:
  "(is_pending (f log args) \<longrightarrow> is_pending (fst (EffectAfter fn m f cls args log)))
   \<and> (f log args = Value v
        \<and> is_immediate (fn \<lparr>functionName = m, className = classNameOf cls, ctx_args = args,
                             ctx_result = Some v, ctx_error = None\<rparr>) \<longrightarrow>
      fst (EffectAfter fn m f cls args log) = Value v)
   \<and> (f log args = Value v
        \<and> is_pending (fn \<lparr>functionName = m, className = classNameOf cls, ctx_args = args,
                             ctx_result = Some v, ctx_error = None\<rparr>) \<longrightarrow>
      is_pending (fst (EffectAfter fn m f cls args log)))"
proof (cases "f log args")
  case (Value w)
  then show ?thesis
    by (cases "fn \<lparr>functionName = m, className = classNameOf cls, ctx_args = args,
                             ctx_result = Some w, ctx_error = None\<rparr>")
      (auto simp: EffectAfter_def invoke_eq)
next
  case (Thrown e)
  then show ?thesis by (simp add: EffectAfter_def invoke_eq)
next
  case (Promise s)
  then show ?thesis by (cases s) (simp_all add: EffectAfter_def invoke_eq)
qed

lemma EffectError_contract:
  "(is_immediate (f log args) \<longrightarrow> fst (EffectError fn m f cls args log) = f log args)
   \<and> (is_pending (f log args) \<longrightarrow> is_pending (fst (EffectError fn m f cls args log)))"
proof (cases "f log args")
  case (Promise s)
  then show ?thesis by (cases s) (simp_all add: EffectError_def invoke_eq)
qed (simp_all add: EffectError_def invoke_eq)

text \<open>
  C3 (as amended): what each wrapper hands back, compared with what the original method
  returns on the same call.
  \<^item> \<^verbatim>\<open>Retry\<close> and \<^verbatim>\<open>CircuitBreaker\<close> always return a promise, \<^verbatim>\<open>Timeout\<close> does so
    unless the method throws synchronously, and the debounced methods return a new,
    unsettled promise: an asynchronous method stays asynchronous, a synchronous one
    becomes asynchronous.
  \<^item> \<^verbatim>\<open>RateLimited\<close> on an admitted call, \<^verbatim>\<open>Cached\<close> and \<^verbatim>\<open>Memoize\<close> on a miss, and the
    throttled methods on a call that executes return the method's own result.  On a hit
    \<^verbatim>\<open>Cached\<close> and \<^verbatim>\<open>Memoize\<close> return the stored value at once, whatever the method is.
    Inside the interval \<^verbatim>\<open>ThrottleSync\<close> returns \<^verbatim>\<open>undefined\<close> at once and \<^verbatim>\<open>ThrottleAsync\<close>
    a promise, when it has stored a promise or nothing.
  \<^item> \<^verbatim>\<open>Fallback\<close> and \<^verbatim>\<open>EffectError\<close> return a plain value of the method unchanged and a
    promise for a promise.  \<^verbatim>\<open>EffectBefore\<close> and \<^verbatim>\<open>EffectAfter\<close> keep the kind of the result
    when the hook returns a plain value, and return a promise when the hook or the
    method returns one.
\<close>

theorem wrapper_contract:
  "is_pending (fst (Retry ropts f args log))
   \<and> (\<not> is_thrown (g glog args) \<longrightarrow> is_pending (fst (Timeout ms m g args settledAfter glog)))
   \<and> is_pending (fst (CircuitBreaker copts g args now failedAt c glog))
   \<and> (fst (Debounce delay m cls args now dst) = length (promises dst)
       \<and> promises (snd (Debounce delay m cls args now dst)) ! length (promises dst) = Unsettled)
   \<and> (int (length (requestTimestamps lopts lst (rl_key cls m) now)) < limit lopts \<longrightarrow>
        fst (RateLimited lopts m g cls args now lst glog) = g glog args)
   \<and> ((cache (cacheKey opts stringify cls m args) = Some entry \<and> fresh (expiry entry) now \<longrightarrow>
          is_immediate (fst (Cached opts stringify m f cls args now storedAt cache keys log)))
      \<and> (cache (cacheKey opts stringify cls m args) = None
           \<or> (cache (cacheKey opts stringify cls m args) = Some entry \<and> \<not> fresh (expiry entry) now) \<longrightarrow>
          fst (Cached opts stringify m f cls args now storedAt cache keys log) = f log args))
   \<and> ((memoized (m @ '':'' @ stringify args) = Some v \<longrightarrow>
          is_immediate (fst (Memoize stringify m f cls args memoized log)))
      \<and> (memoized (m @ '':'' @ stringify args) = None \<longrightarrow>
          fst (Memoize stringify m f cls args memoized log) = f log args))
   \<and> ((is_immediate (f log args) \<longrightarrow> fst (Fallback fallbackFn f args log) = f log args)
      \<and> (is_pending (f log args) \<longrightarrow> is_pending (fst (Fallback fallbackFn f args log))))
   \<and> ((interval \<le> now - lastCall lastCallMap (cls @ ''.'' @ m) \<longrightarrow>
          fst (ThrottleSync interval m h cls args now lastCallMap hlog) = h hlog args)
      \<and> (now - lastCall lastCallMap (cls @ ''.'' @ m) < interval \<longrightarrow>
          fst (ThrottleSync interval m h cls args now lastCallMap hlog) = Value None))
   \<and> ((interval \<le> now - lastCall lastCallMap (cls @ ''.'' @ m) \<longrightarrow>
          fst (ThrottleAsync interval truthy m h cls args now lastCallMap lastResultMap hlog)
            = h hlog args)
      \<and> (now - lastCall lastCallMap (cls @ ''.'' @ m) < interval
           \<and> (lastResultMap (cls @ ''.'' @ m) = None
               \<or> (\<exists>s. lastResultMap (cls @ ''.'' @ m) = Some (Promise s))) \<longrightarrow>
          is_pending (fst (ThrottleAsync interval truthy m h cls args now lastCallMap
                             lastResultMap hlog))))
   \<and> ((is_immediate (fn \<lparr>functionName = m, className = classNameOf cls, ctx_args = args,
                          ctx_result = None, ctx_error = None\<rparr>) \<longrightarrow>
          fst (EffectBefore fn m f cls args log) = f log args)
      \<and> (is_pending (fn \<lparr>functionName = m, className = classNameOf cls, ctx_args = args,
                         ctx_result = None, ctx_error = None\<rparr>) \<and> \<not> is_thrown (f log args) \<longrightarrow>
          is_pending (fst (EffectBefore fn m f cls args log))))
   \<and> ((is_pending (f log args) \<longrightarrow> is_pending (fst (EffectAfter fn m f cls args log)))
      \<and> (f log args = Value w
           \<and> is_immediate (fn \<lparr>functionName = m, className = classNameOf cls, ctx_args = args,
                                ctx_result = Some w, ctx_error = None\<rparr>) \<longrightarrow>
          fst (EffectAfter fn m f cls args log) = Value w)
      \<and> (f log args = Value w
           \<and> is_pending (fn \<lparr>functionName = m, className = classNameOf cls, ctx_args = args,
                              ctx_result = Some w, ctx_error = None\<rparr>) \<longrightarrow>
          is_pending (fst (EffectAfter fn m f cls args log))))
   \<and> ((is_immediate (f log args) \<longrightarrow> fst (EffectError fn m f cls args log) = f log args)
      \<and> (is_pending (f log args) \<longrightarrow> is_pending (fst (EffectError fn m f cls args log))))"
  by (rule conjI[OF Retry_pending conjI[OF impI[OF Timeout_pending]
        conjI[OF CircuitBreaker_pending conjI[OF Debounce_pending
        conjI[OF impI[OF RateLimited_passes] conjI[OF Cached_contract conjI[OF Memoize_contract
        conjI[OF Fallback_contract conjI[OF ThrottleSync_contract conjI[OF ThrottleAsync_contract
        conjI[OF EffectBefore_contract conjI[OF EffectAfter_contract EffectError_contract]]]]]]]]]]]])

theorem wrapper_contract_witness:
  "is_pending (fst (Timeout 100 ''m'' counter () 0 []))
   \<and> fst (RateLimited rl_opts2 ''m'' counter ''C'' () 1000 Map.empty []) = Value 0
   \<and> fst (Cached no_options json_unit ''m'' counter ''C'' () 1000 1000 Map.empty {} []) = Value 0
   \<and> fst (Memoize json_unit ''m'' counter ''C'' () Map.empty []) = Value 0
   \<and> fst (Fallback (\<lambda>a. Value 7) counter () []) = Value 0
   \<and> fst (ThrottleSync 100 ''m'' opt_counter ''C'' () 1000 Map.empty []) = Value (Some 0)
   \<and> fst (ThrottleAsync 100 (\<lambda>v. True) ''m'' opt_counter ''C'' () 1000 Map.empty Map.empty [])
       = Value (Some 0)
   \<and> fst (EffectBefore sync_hook ''m'' counter ''C'' () []) = Value 0
   \<and> fst (EffectAfter sync_hook ''m'' counter ''C'' () []) = Value 0
   \<and> fst (EffectError sync_hook ''m'' counter ''C'' () []) = Value 0
   \<and> is_immediate (fst (Cached no_options json_unit ''m'' async_counter ''C'' () 1000 1000
        [''C:m:[]'' \<mapsto> \<lparr>cvalue = 0, expiry = None\<rparr>] {} []))
   \<and> is_immediate (fst (Memoize json_unit ''m'' async_counter ''C'' () [''m:[]'' \<mapsto> 0] []))
   \<and> is_pending (fst (Fallback (\<lambda>a. Value 7) async_counter () []))
   \<and> fst (ThrottleSync 100 ''m'' opt_counter ''C'' () 1000 [''C.m'' \<mapsto> 950] []) = Value None
   \<and> is_pending (fst (ThrottleAsync 100 (\<lambda>v. True) ''m'' opt_counter ''C'' () 1000
        [''C.m'' \<mapsto> 950] [''C.m'' \<mapsto> Promise (Resolved (Some 0))] []))
   \<and> is_pending (fst (EffectBefore async_hook ''m'' async_counter ''C'' () []))
   \<and> is_pending (fst (EffectAfter async_hook ''m'' async_counter ''C'' () []))
   \<and> is_pending (fst (EffectError async_hook ''m'' async_counter ''C'' () []))"
proof -
  note sync = wrapper_contract [where f = counter and g = counter and h = opt_counter
      and args = "()" and log = "[]" and glog = "[]" and hlog = "[]" and m = "''m''"
      and cls = "''C''" and ms = 100 and settledAfter = 0 and now = 1000 and lopts = rl_opts2
      and lst = Map.empty and opts = no_options and stringify = json_unit and cache = Map.empty
      and storedAt = 1000 and keys = "{}" and memoized = Map.empty
      and fallbackFn = "\<lambda>a. Value 7" and interval = 100 and lastCallMap = Map.empty
      and truthy = "\<lambda>v. True" and lastResultMap = Map.empty and fn = sync_hook and w = 0
      and ropts = "retry_opts 2 Normal" and copts = cb_opts2 and failedAt = 1000
      and c = circuitState0 and delay = 100 and dst = debounce0
      and entry = "\<lparr>cvalue = 0, expiry = None\<rparr>" and v = 0]
  note async = wrapper_contract [where f = async_counter and g = async_counter
      and h = opt_counter and args = "()" and log = "[]" and glog = "[]" and hlog = "[]"
      and m = "''m''" and cls = "''C''" and now = 1000 and opts = no_options
      and stringify = json_unit
      and cache = "[''C:m:[]'' \<mapsto> \<lparr>cvalue = 0, expiry = None\<rparr>]"
      and entry = "\<lparr>cvalue = 0, expiry = None\<rparr>"
      and storedAt = 1000 and keys = "{}" and memoized = "[''m:[]'' \<mapsto> 0]" and v = 0
      and fallbackFn = "\<lambda>a. Value 7" and interval = 100 and lastCallMap = "[''C.m'' \<mapsto> 950]"
      and truthy = "\<lambda>v. True" and lastResultMap = "[''C.m'' \<mapsto> Promise (Resolved (Some 0))]"
      and fn = async_hook and w = 0
      and ropts = "retry_opts 2 Normal" and copts = cb_opts2 and failedAt = 1000
      and c = circuitState0 and delay = 100 and dst = debounce0 and ms = 100
      and settledAfter = 0 and lopts = rl_opts2 and lst = Map.empty]
  from sync async show ?thesis
    by (auto simp: counter_def async_counter_def opt_counter_def sync_hook_def async_hook_def
        rl_opts2_def requestTimestamps_def stored_def no_options_def json_unit_def cacheKey_def
        fresh_def lastCall_def)
qed

text \<open>
  C3 as stated fails in both directions: \<^verbatim>\<open>Timeout\<close> around a method that returns a plain
  value returns a promise, and \<^verbatim>\<open>Memoize\<close> around a method that returns a promise returns
  the stored plain value on a hit.
\<close>

theorem wrappers_change_the_contract:
  "is_immediate (counter [] ())
   \<and> fst (Timeout 100 ''m'' counter () 0 []) = Promise (Resolved 0)
   \<and> is_pending (async_counter [] ())
   \<and> fst (Memoize json_unit ''m'' async_counter ''C'' () [''m:[]'' \<mapsto> 0] []) = Value 0"
  by (simp add: counter_def async_counter_def Timeout_def Memoize_def invoke_def Let_def
      json_unit_def)

end
